theory Spec2Isabelle
  imports Main "HOL-Library.Sublist" "HOL-Library.Char_ord" "HOL-Library.List_Lexorder"
begin

section \<open>The SmartPy compile adapter (src/index.ts)\<close>

text \<open>
  The module drives an external compiler (a docker image) over a list of source files and
  folds what the compiler leaves in the build directory into one record per source.
  Everything the module does beyond computing values is explicit here: the file system,
  the not yet performed asynchronous directory creations and an ordered trace of the
  calls that reach outside the module are the fields of a \<open>world\<close>, which every
  operation takes and returns; a thrown exception, a rejected promise and a callback
  called with an error are the \<open>Inl\<close> of a sum.
\<close>

subsection \<open>Constants\<close>

record compiler_id =
  name :: string
  version :: string

text \<open>\<^verbatim>\<open>const compiler = { name: "smartpy", version: "trufflesuite/smartpy-basic:0.0.2" }\<close>\<close>

definition compiler :: compiler_id where
  "compiler = \<lparr>name = ''smartpy'', version = ''trufflesuite/smartpy-basic:0.0.2''\<rparr>"

definition SMARTPY_PATTERN :: string where
  "SMARTPY_PATTERN = ''**/*.py''"

subsection \<open>The world outside the module\<close>

datatype node = File string | Dir

datatype errno = ENOENT | EISDIR | ENOTDIR

text \<open>
  The values the module fails with. \<open>execSmartPy\<close> rejects with a string and
  \<open>checkSmartPy\<close> calls back with a string; the first is \<open>CompileError\<close>, the
  second \<open>SmartPyUnavailable\<close>. \<open>FsError\<close> and \<open>SyntaxError\<close> are the exceptions
  of the \<open>fs\<close> calls and of \<open>JSON.parse\<close>; \<open>CollaboratorError\<close> is the error a
  collaborator (\<open>find_contracts\<close>, \<open>Profiler.updated\<close>) hands to its callback.
\<close>

datatype error =
    CompileError string
  | SmartPyUnavailable string
  | CollaboratorError string
  | FsError errno string
  | SyntaxError

text \<open>The calls that leave the module, in the order they are made.\<close>

datatype event =
    ReadFile string
  | Unlink string
  | Mkdirp string
  | Spawn string "string list"
  | Exec string
  | Log string

type_synonym filesystem = "(string \<times> node) list"

record world =
  fs :: filesystem
  pending :: "string list"
  trace :: "event list"

definition emit :: "event \<Rightarrow> world \<Rightarrow> world" where
  "emit e w = w\<lparr>trace := trace w @ [e]\<rparr>"

text \<open>
  The file system is an association list from path strings to nodes; the first entry of a
  path is the one that counts. Paths are compared as the strings the program builds. Each
  call throws what Node throws on Linux: \<open>ENOENT\<close> for a missing path,
  \<open>EISDIR\<close> for reading or unlinking a directory, \<open>ENOTDIR\<close> for listing a file.
  Reads and deletions are recorded in the trace whether they succeed or not.
\<close>

definition existsSync :: "string \<Rightarrow> world \<Rightarrow> bool" where
  "existsSync p w = (map_of (fs w) p \<noteq> None)"

definition readFileSync :: "string \<Rightarrow> world \<Rightarrow> (error + string) \<times> world" where
  "readFileSync p w =
     (case map_of (fs w) p of
        Some (File c) \<Rightarrow> (Inr c, emit (ReadFile p) w)
      | Some Dir \<Rightarrow> (Inl (FsError EISDIR p), emit (ReadFile p) w)
      | None \<Rightarrow> (Inl (FsError ENOENT p), emit (ReadFile p) w))"

definition remove_path :: "string \<Rightarrow> filesystem \<Rightarrow> filesystem" where
  "remove_path p f = filter (\<lambda>e. fst e \<noteq> p) f"

definition unlinkSync :: "string \<Rightarrow> world \<Rightarrow> (error + unit) \<times> world" where
  "unlinkSync p w =
     (case map_of (fs w) p of
        Some (File c) \<Rightarrow> (Inr (), (emit (Unlink p) w)\<lparr>fs := remove_path p (fs w)\<rparr>)
      | Some Dir \<Rightarrow> (Inl (FsError EISDIR p), emit (Unlink p) w)
      | None \<Rightarrow> (Inl (FsError ENOENT p), emit (Unlink p) w))"

text \<open>The name of \<open>p\<close> as an entry of the directory \<open>d\<close>, when it is one.\<close>

definition child_name :: "string \<Rightarrow> string \<Rightarrow> string option" where
  "child_name d p =
     (let rest = drop (length d + 1) p
      in if take (length d + 1) p = d @ ''/'' \<and> rest \<noteq> [] \<and> CHR ''/'' \<notin> set rest
         then Some rest else None)"

definition entries :: "string \<Rightarrow> filesystem \<Rightarrow> string list" where
  "entries d f = remdups (List.map_filter (child_name d) (map fst f))"

definition readdirSync :: "string \<Rightarrow> world \<Rightarrow> (error + string list) \<times> world" where
  "readdirSync d w =
     (case map_of (fs w) d of
        Some Dir \<Rightarrow> (Inr (entries d (fs w)), w)
      | Some (File c) \<Rightarrow> (Inl (FsError ENOTDIR d), w)
      | None \<Rightarrow> (Inl (FsError ENOENT d), w))"

text \<open>
  \<open>mkdirp\<close> is asynchronous: the call hands a first \<open>mkdir\<close> to the thread pool
  and returns, the ancestors a directory lacks are created from the callbacks of the
  failed attempts, and the promise that \<open>promisify\<close> wraps around it settles in a
  later turn of the event loop. The call is therefore a request added to \<open>pending\<close>;
  \<open>run_pending\<close> is the event loop performing the requests, creating the directory
  and the ancestors it lacks (nothing below a path that is a file). Nobody handles a
  rejection of the promise, so a creation that fails changes nothing.
\<close>

definition mkdirp_request :: "string \<Rightarrow> world \<Rightarrow> world" where
  "mkdirp_request d w = (emit (Mkdirp d) w)\<lparr>pending := pending w @ [d]\<rparr>"

definition ancestors :: "string \<Rightarrow> string list" where
  "ancestors d = [take i d. i \<leftarrow> [1..<length d], d ! i = CHR ''/'']"

fun mkdirs :: "string list \<Rightarrow> filesystem \<Rightarrow> filesystem" where
  "mkdirs [] f = f"
| "mkdirs (a # as) f =
     (case map_of f a of
        None \<Rightarrow> mkdirs as (f @ [(a, Dir)])
      | Some Dir \<Rightarrow> mkdirs as f
      | Some (File c) \<Rightarrow> f)"

definition mkdirp_perform :: "string \<Rightarrow> filesystem \<Rightarrow> filesystem" where
  "mkdirp_perform d f = mkdirs (ancestors d @ [d]) f"

definition run_pending :: "world \<Rightarrow> world" where
  "run_pending w = w\<lparr>fs := fold mkdirp_perform (pending w) (fs w), pending := []\<rparr>"

subsection \<open>The request and the collaborators\<close>

text \<open>
  The fields of \<open>TruffleConfig\<close> the module reads. \<open>quiet\<close> and \<open>strict\<close> may be
  undefined (\<open>None\<close>); \<open>argv\<close> is \<open>options._\<close>, the positional arguments. The logger
  is the \<open>Log\<close> events of the trace.
\<close>

record options =
  paths :: "string list"
  working_directory :: string
  contracts_directory :: string
  contracts_build_directory :: string
  quiet :: "bool option"
  strict :: "bool option"
  argv :: "string list"

text \<open>
  What the module imports and does not define: Node's \<open>path\<close> functions (they differ
  between hosts), \<open>colors.red\<close>, \<open>minimatch\<close>, \<open>JSON.parse\<close> and
  \<open>JSON.stringify\<close> over parsed values of type \<open>'j\<close> (\<open>None\<close> when \<open>JSON.parse\<close>
  throws), the two Truffle collaborators, and the behaviour of the docker processes: the
  preflight command yields whether \<open>exec\<close> reports an error and the text on its stderr;
  a compile run yields the exit code (\<open>None\<close> when a signal ended it), the chunks
  written to stderr, and the file system it leaves.
\<close>

record 'j env =
  path_normalize :: "string \<Rightarrow> string"
  path_extname :: "string \<Rightarrow> string"
  path_basename :: "string \<Rightarrow> string \<Rightarrow> string"
  path_isAbsolute :: "string \<Rightarrow> bool"
  path_relative :: "string \<Rightarrow> string \<Rightarrow> string"
  path_sep :: string
  path_join :: "string \<Rightarrow> string \<Rightarrow> string"
  colors_red :: "string \<Rightarrow> string"
  minimatch :: "string \<Rightarrow> string \<Rightarrow> bool"
  JSON_parse :: "string \<Rightarrow> 'j option"
  JSON_stringify :: "'j \<Rightarrow> string"
  find_contracts :: "string \<Rightarrow> world \<Rightarrow> error + string list"
  Profiler_updated :: "options \<Rightarrow> world \<Rightarrow> error + string list"
  docker_help :: "string \<Rightarrow> world \<Rightarrow> bool \<times> string"
  docker_compile :: "string list \<Rightarrow> filesystem \<Rightarrow> int option \<times> string list \<times> filesystem"

subsection \<open>The result\<close>

text \<open>\<open>contractDefinition\<close>; \<open>abi\<close> is always the empty array.\<close>

record contract =
  contractName :: string
  abi :: "string list"
  initialStorage :: "string option"
  sourcePath :: string
  source :: string
  michelson :: "string option"
  compilerId :: compiler_id

text \<open>
  What the callback receives on success: the mapping, the paths and the compiler
  identity, which the early exits leave undefined.
\<close>

type_synonym build_result = "(string \<rightharpoonup> contract) \<times> string list \<times> compiler_id option"

subsection \<open>compile.display\<close>

text \<open>
  \<open>paths.sort()\<close> sorts the array of the request in place, so unless \<open>quiet\<close> is
  \<open>true\<close> the caller goes on with the sorted paths; the function returns them.
\<close>

definition display :: "'j env \<Rightarrow> string list \<Rightarrow> options \<Rightarrow> world \<Rightarrow> string list \<times> world" where
  "display E ps opts w =
     (if quiet opts \<noteq> Some True
      then (sort ps,
            fold (\<lambda>c. emit (Log (''> Compiling '' @
                    (if path_isAbsolute E c
                     then ''.'' @ path_sep E @ path_relative E (working_directory opts) c
                     else c))))
                 (sort ps) w)
      else (ps, w))"

subsection \<open>checkSmartPy\<close>

definition help_command :: string where
  "help_command = ''docker run --rm -i trufflesuite/smartpy-basic:0.0.1 --help''"

definition checkSmartPy :: "'j env \<Rightarrow> world \<Rightarrow> (error + unit) \<times> world" where
  "checkSmartPy E w =
     (case docker_help E help_command w of
        (err, stderr) \<Rightarrow>
          if err
          then (Inl (SmartPyUnavailable
                  (colors_red E ''Error executing SmartPy-Basic:'' @ [CHR 0x0A] @ stderr)),
                emit (Exec help_command) w)
          else (Inr (), emit (Exec help_command) w))"

subsection \<open>execSmartPy\<close>

definition replace_backslashes :: "string \<Rightarrow> string" where
  "replace_backslashes s = map (\<lambda>c. if c = CHR 0x5C then CHR ''/'' else c) s"

definition contract_name :: "'j env \<Rightarrow> string \<Rightarrow> string" where
  "contract_name E sp = path_basename E sp (path_extname E sp)"

text \<open>The argument array of \<open>spawn\<close>. An entry point that is the empty string is falsy.\<close>

definition spawn_args :: "'j env \<Rightarrow> string \<Rightarrow> string option \<Rightarrow> options \<Rightarrow> string list" where
  "spawn_args E sp entryPoint opts =
     (let currentProjectWorkingDirectory = path_normalize E (working_directory opts);
          fullInternalSourcePath = replace_backslashes (path_normalize E sp)
      in [''run'',
          ''-v'',
          currentProjectWorkingDirectory @ '':'' @ currentProjectWorkingDirectory,
          ''-w'',
          currentProjectWorkingDirectory,
          ''--rm'',
          ''-i'',
          ''trufflesuite/smartpy-basic:0.0.1'',
          ''compile'',
          fullInternalSourcePath,
          (case entryPoint of
             Some e \<Rightarrow> if e \<noteq> [] then e else contract_name E sp
           | None \<Rightarrow> contract_name E sp) @ ''()'',
          contracts_build_directory opts])"

text \<open>
  The body of the promise up to and including \<open>spawn\<close>: it runs without interruption,
  and the world it returns is the one the process is launched in.
\<close>

definition launch :: "'j env \<Rightarrow> string \<Rightarrow> string option \<Rightarrow> options \<Rightarrow> world \<Rightarrow> world" where
  "launch E sp entryPoint opts w =
     emit (Spawn ''docker'' (spawn_args E sp entryPoint opts))
       (if \<not> existsSync (contracts_build_directory opts) w
        then mkdirp_request (contracts_build_directory opts) w
        else w)"

text \<open>
  The \<open>close\<close> handler. \<open>stderr\<close> is the concatenation of the chunks of the
  \<open>data\<close> events; \<open>code != 0\<close> holds of every code but 0 and of \<open>null\<close>. After
  \<open>reject\<close> the call of \<open>resolve\<close> has no effect.
\<close>

definition on_close :: "'j env \<Rightarrow> string \<Rightarrow> int option \<Rightarrow> string \<Rightarrow> error + string" where
  "on_close E sp code stderr =
     (if code \<noteq> Some 0 \<or> stderr \<noteq> []
      then Inl (CompileError (stderr @ [CHR 0x0A] @
                  colors_red E (''Compilation of '' @ sp @ '' failed. See above.'')))
      else Inr (contract_name E sp))"

text \<open>
  The promise settles when the process closes. Until then the event loop runs: the
  pending directory creations are performed, and the process does its work, which
  \<open>docker_compile\<close> gives from the arguments and the file system it finds. A
  \<open>spawn\<close> that fails to start (no \<open>docker\<close> on the host) is left out: the
  preflight check of \<open>compileSmartPy\<close> has run the same program before.
\<close>

definition execSmartPy ::
  "'j env \<Rightarrow> string \<Rightarrow> string option \<Rightarrow> options \<Rightarrow> world \<Rightarrow> (error + string) \<times> world" where
  "execSmartPy E sp entryPoint opts w =
     (let w1 = run_pending (launch E sp entryPoint opts w)
      in case docker_compile E (spawn_args E sp entryPoint opts) (fs w1) of
           (code, chunks, f) \<Rightarrow>
             (on_close E sp code (foldl (@) [] chunks), w1\<lparr>fs := f\<rparr>))"

subsection \<open>The loop body of compileAll: reading the build directory\<close>

text \<open>\<open>String.prototype.includes\<close>: \<open>sub\<close> occurs somewhere in \<open>s\<close>.\<close>

fun str_includes :: "string \<Rightarrow> string \<Rightarrow> bool" where
  "str_includes [] sub = (sub = [])"
| "str_includes (c # cs) sub = (take (length sub) (c # cs) = sub \<or> str_includes cs sub)"

text \<open>
  The callback of \<open>forEach\<close> for one directory entry. The two variables it assigns,
  \<open>michelson\<close> and \<open>initialStorage\<close>, are passed in and returned as a pair; both
  start undefined. An exception leaves the callback, and the loop, at once. The three
  things a branch of the callback does come first: delete the file; read it, parse it,
  keep the canonical text and delete it; read it, keep the text and delete it.
\<close>

type_synonym vars = "string option \<times> string option"

definition discard :: "string \<Rightarrow> vars \<Rightarrow> world \<Rightarrow> (error + vars) \<times> world" where
  "discard currentFilePath vars w =
     (case unlinkSync currentFilePath w of
        (Inl e, w1) \<Rightarrow> (Inl e, w1)
      | (Inr u, w1) \<Rightarrow> (Inr vars, w1))"

definition capture_michelson :: "'j env \<Rightarrow> string \<Rightarrow> vars \<Rightarrow> world \<Rightarrow> (error + vars) \<times> world" where
  "capture_michelson E currentFilePath vars w =
     (case readFileSync currentFilePath w of
        (Inl e, w1) \<Rightarrow> (Inl e, w1)
      | (Inr michelsonAsRawData, w1) \<Rightarrow>
          (case JSON_parse E michelsonAsRawData of
             None \<Rightarrow> (Inl SyntaxError, w1)
           | Some michelsonJson \<Rightarrow>
               (case unlinkSync currentFilePath w1 of
                  (Inl e, w2) \<Rightarrow> (Inl e, w2)
                | (Inr u, w2) \<Rightarrow> (Inr (Some (JSON_stringify E michelsonJson), snd vars), w2))))"

definition capture_storage :: "string \<Rightarrow> vars \<Rightarrow> world \<Rightarrow> (error + vars) \<times> world" where
  "capture_storage currentFilePath vars w =
     (case readFileSync currentFilePath w of
        (Inl e, w1) \<Rightarrow> (Inl e, w1)
      | (Inr initialStorageRawData, w1) \<Rightarrow>
          (case unlinkSync currentFilePath w1 of
             (Inl e, w2) \<Rightarrow> (Inl e, w2)
           | (Inr u, w2) \<Rightarrow> (Inr (fst vars, Some initialStorageRawData), w2)))"

definition reconcile_file ::
  "'j env \<Rightarrow> string \<Rightarrow> string \<Rightarrow> vars \<Rightarrow> world \<Rightarrow> (error + vars) \<times> world" where
  "reconcile_file E dir file vars w =
     (let currentFilePath = dir @ ''/'' @ file
      in if str_includes file ''.py'' then discard currentFilePath vars w
         else if str_includes file ''.tz.json'' then capture_michelson E currentFilePath vars w
         else if str_includes file ''.tz'' then
           (if file = ''contractStorage.tz'' then capture_storage currentFilePath vars w
            else discard currentFilePath vars w)
         else (Inr vars, w))"

fun reconcile ::
  "'j env \<Rightarrow> string \<Rightarrow> string list \<Rightarrow> vars \<Rightarrow> world \<Rightarrow> (error + vars) \<times> world" where
  "reconcile E dir [] vars w = (Inr vars, w)"
| "reconcile E dir (file # files) vars w =
     (case reconcile_file E dir file vars w of
        (Inl e, w1) \<Rightarrow> (Inl e, w1)
      | (Inr vars1, w1) \<Rightarrow> reconcile E dir files vars1 w1)"

text \<open>One pass of the \<open>for\<close> loop of \<open>compileAll\<close>, for one source path.\<close>

definition compile_one ::
  "'j env \<Rightarrow> options \<Rightarrow> string option \<Rightarrow> string \<Rightarrow> world \<Rightarrow> (error + contract) \<times> world" where
  "compile_one E opts entryPoint sp w =
     (case execSmartPy E sp entryPoint opts w of
        (Inl e, w1) \<Rightarrow> (Inl e, w1)
      | (Inr cn, w1) \<Rightarrow>
          (case readFileSync sp w1 of
             (Inl e, w2) \<Rightarrow> (Inl e, w2)
           | (Inr sourceContents, w2) \<Rightarrow>
               (case readdirSync (contracts_build_directory opts) w2 of
                  (Inl e, w3) \<Rightarrow> (Inl e, w3)
                | (Inr currentBuildDirectoryContents, w3) \<Rightarrow>
                    (case reconcile E (contracts_build_directory opts)
                            currentBuildDirectoryContents (None, None) w3 of
                       (Inl e, w4) \<Rightarrow> (Inl e, w4)
                     | (Inr vars, w4) \<Rightarrow>
                         (Inr \<lparr>contractName = cn,
                               abi = [],
                               initialStorage = snd vars,
                               sourcePath = sp,
                               source = sourceContents,
                               michelson = fst vars,
                               compilerId = compiler\<rparr>, w4)))))"

fun compile_loop ::
  "'j env \<Rightarrow> options \<Rightarrow> string option \<Rightarrow> string list \<Rightarrow> contract list \<Rightarrow> world
   \<Rightarrow> (error + contract list) \<times> world" where
  "compile_loop E opts entryPoint [] contracts w = (Inr contracts, w)"
| "compile_loop E opts entryPoint (sp # rest) contracts w =
     (case compile_one E opts entryPoint sp w of
        (Inl e, w1) \<Rightarrow> (Inl e, w1)
      | (Inr contractDefinition, w1) \<Rightarrow>
          compile_loop E opts entryPoint rest (contracts @ [contractDefinition]) w1)"

subsection \<open>compileAll\<close>

text \<open>\<open>contracts.reduce\<close>: each record is stored under its name, a later one over an earlier.\<close>

definition aggregate :: "contract list \<Rightarrow> (string \<rightharpoonup> contract)" where
  "aggregate contracts = foldl (\<lambda>result c. result(contractName c \<mapsto> c)) Map.empty contracts"

text \<open>\<^verbatim>\<open>options._[0] || undefined\<close>: an empty first argument is falsy.\<close>

definition entry_point :: "options \<Rightarrow> string option" where
  "entry_point opts = (case argv opts of [] \<Rightarrow> None | a # as \<Rightarrow> if a \<noteq> [] then Some a else None)"

text \<open>
  An error of \<open>execSmartPy\<close> goes to the callback when one is passed and is thrown
  otherwise; an exception of the loop body rejects the promise of the \<open>async\<close>
  function. All three are \<open>Inl\<close>.
\<close>

definition compileAll :: "'j env \<Rightarrow> options \<Rightarrow> world \<Rightarrow> (error + build_result) \<times> world" where
  "compileAll E opts w =
     (case display E (paths opts) opts w of
        (ps, w1) \<Rightarrow>
          (case compile_loop E opts (entry_point opts) ps [] w1 of
             (Inl e, w2) \<Rightarrow> (Inl e, w2)
           | (Inr contracts, w2) \<Rightarrow> (Inr (aggregate contracts, ps, Some compiler), w2)))"

subsection \<open>compileSmartPy and its two entry points\<close>

definition compileSmartPy :: "'j env \<Rightarrow> options \<Rightarrow> world \<Rightarrow> (error + build_result) \<times> world" where
  "compileSmartPy E opts w =
     (let opts1 = opts\<lparr>paths := filter (\<lambda>p. minimatch E p SMARTPY_PATTERN) (paths opts)\<rparr>
      in if paths opts1 = [] then (Inr (Map.empty, [], None), w)
         else (case checkSmartPy E w of
                 (Inl err, w1) \<Rightarrow> (Inl err, w1)
               | (Inr u, w1) \<Rightarrow> compileAll E opts1 w1))"

text \<open>\<open>compile.with_dependencies\<close> is \<open>compileSmartPy\<close>.\<close>

definition compile_all :: "'j env \<Rightarrow> options \<Rightarrow> world \<Rightarrow> (error + build_result) \<times> world" where
  "compile_all E opts w =
     (case find_contracts E (contracts_directory opts) w of
        Inl err \<Rightarrow> (Inl err, w)
      | Inr files \<Rightarrow> compileSmartPy E (opts\<lparr>paths := files\<rparr>) w)"

definition compile_necessary :: "'j env \<Rightarrow> options \<Rightarrow> world \<Rightarrow> (error + build_result) \<times> world" where
  "compile_necessary E opts w =
     (case Profiler_updated E opts w of
        Inl err \<Rightarrow> (Inl err, w)
      | Inr updated \<Rightarrow>
          if updated = [] \<and> quiet opts \<noteq> Some True then (Inr (Map.empty, [], None), w)
          else compileSmartPy E (opts\<lparr>paths := updated\<rparr>) w)"

definition updateContractsDirectory :: "'j env \<Rightarrow> options \<Rightarrow> options" where
  "updateContractsDirectory E opts =
     opts\<lparr>contracts_directory := path_join E (contracts_directory opts) SMARTPY_PATTERN\<rparr>"

definition compileSmartPy_all :: "'j env \<Rightarrow> options \<Rightarrow> world \<Rightarrow> (error + build_result) \<times> world" where
  "compileSmartPy_all E opts w = compile_all E (updateContractsDirectory E opts) w"

definition compileSmartPy_necessary ::
  "'j env \<Rightarrow> options \<Rightarrow> world \<Rightarrow> (error + build_result) \<times> world" where
  "compileSmartPy_necessary E opts w = compile_necessary E (updateContractsDirectory E opts) w"

section \<open>The vocabulary of the specification\<close>

text \<open>
  The artifact classes of the specification and its classification rule, the three
  rules tried in the order it gives them: source echo, JSON-encoded compiled program,
  raw program output, and otherwise none.
\<close>

datatype artifact = SourceEcho | CompiledProgram | RawOutput | Unrecognized

definition classify :: "string \<Rightarrow> artifact" where
  "classify file =
     (if str_includes file ''.py'' then SourceEcho
      else if str_includes file ''.tz.json'' then CompiledProgram
      else if str_includes file ''.tz'' then RawOutput
      else Unrecognized)"

text \<open>
  \<open>extends P w w'\<close>: the trace of \<open>w'\<close> is the trace of \<open>w\<close> followed by events
  that all satisfy \<open>P\<close>.
\<close>

definition extends :: "(event \<Rightarrow> bool) \<Rightarrow> world \<Rightarrow> world \<Rightarrow> bool" where
  "extends P w w' =
     (take (length (trace w)) (trace w') = trace w \<and>
      list_all P (drop (length (trace w)) (trace w')))"

text \<open>An event that starts a process starts docker on the image \<open>img\<close>.\<close>

fun on_image :: "string \<Rightarrow> event \<Rightarrow> bool" where
  "on_image img (Spawn cmd args) = (cmd = ''docker'' \<and> take 1 (drop 7 args) = [img])"
| "on_image img (Exec cmd) = (cmd = ''docker run --rm -i '' @ img @ '' --help'')"
| "on_image img e = True"

text \<open>An event that neither reads nor deletes the path \<open>p\<close>.\<close>

definition spares :: "string \<Rightarrow> event \<Rightarrow> bool" where
  "spares p e = (e \<noteq> ReadFile p \<and> e \<noteq> Unlink p)"

section \<open>A POSIX host and a scripted compiler\<close>

text \<open>
  The examples below run the module in a fixed environment: Node's \<open>path.posix\<close>
  functions, \<open>colors.red\<close> with colours enabled, and a compiler process whose
  behaviour is scripted by the source path it is given.
\<close>

fun split_path :: "string \<Rightarrow> string list" where
  "split_path [] = [[]]"
| "split_path (c # cs) =
     (if c = CHR ''/'' then [] # split_path cs
      else (case split_path cs of [] \<Rightarrow> [[c]] | seg # segs \<Rightarrow> (c # seg) # segs))"

fun norm_segs :: "bool \<Rightarrow> string list \<Rightarrow> string list \<Rightarrow> string list" where
  "norm_segs allowAboveRoot [] acc = acc"
| "norm_segs allowAboveRoot (s # ss) acc =
     (if s = [] \<or> s = ''.'' then norm_segs allowAboveRoot ss acc
      else if s = ''..'' then
        (if acc \<noteq> [] \<and> last acc \<noteq> ''..'' then norm_segs allowAboveRoot ss (butlast acc)
         else if allowAboveRoot then norm_segs allowAboveRoot ss (acc @ [''..''])
         else norm_segs allowAboveRoot ss acc)
      else norm_segs allowAboveRoot ss (acc @ [s]))"

definition join_segs :: "string list \<Rightarrow> string" where
  "join_segs segs = (case segs of [] \<Rightarrow> [] | s # ss \<Rightarrow> s @ concat (map (\<lambda>t. ''/'' @ t) ss))"

definition posix_isAbsolute :: "string \<Rightarrow> bool" where
  "posix_isAbsolute p = (case p of [] \<Rightarrow> False | c # cs \<Rightarrow> c = CHR ''/'')"

definition posix_normalize :: "string \<Rightarrow> string" where
  "posix_normalize p =
     (if p = [] then ''.''
      else let isAbsolute = posix_isAbsolute p;
               trailingSeparator = (last p = CHR ''/'');
               q = join_segs (norm_segs (\<not> isAbsolute) (split_path p) [])
           in if q = [] then (if isAbsolute then ''/'' else if trailingSeparator then ''./'' else ''.'')
              else (if isAbsolute then ''/'' else []) @ q @ (if trailingSeparator then ''/'' else []))"

definition last_segment :: "string \<Rightarrow> string" where
  "last_segment p = (case filter (\<lambda>s. s \<noteq> []) (split_path p) of [] \<Rightarrow> [] | s # ss \<Rightarrow> last (s # ss))"

definition posix_extname :: "string \<Rightarrow> string" where
  "posix_extname p =
     (let b = last_segment p;
          dots = filter (\<lambda>i. b ! i = CHR ''.'') [0..<length b]
      in if dots = [] \<or> last dots = 0 \<or> b = ''..'' then [] else drop (last dots) b)"

definition posix_basename :: "string \<Rightarrow> string \<Rightarrow> string" where
  "posix_basename p ext =
     (let b = last_segment p
      in if ext \<noteq> [] \<and> ext = p then []
         else if ext \<noteq> [] \<and> ext \<noteq> b \<and> suffix ext b then take (length b - length ext) b
         else b)"

definition posix_join :: "string \<Rightarrow> string \<Rightarrow> string" where
  "posix_join a b =
     (if a = [] \<and> b = [] then ''.''
      else posix_normalize (if a = [] then b else if b = [] then a else a @ ''/'' @ b))"

text \<open>\<open>path.relative\<close>, for a path below the directory it is taken from.\<close>

definition below_relative :: "string \<Rightarrow> string \<Rightarrow> string" where
  "below_relative d p = (if prefix (d @ ''/'') p then drop (length d + 1) p else p)"

definition ansi_red :: "string \<Rightarrow> string" where
  "ansi_red s = [CHR 0x1B] @ ''[31m'' @ s @ [CHR 0x1B] @ ''[39m''"

text \<open>\<open>minimatch\<close> for the one pattern of the module, on paths without dot files.\<close>

definition py_match :: "string \<Rightarrow> string \<Rightarrow> bool" where
  "py_match p pat = (pat = ''**/*.py'' \<and> suffix ''.py'' (last_segment p) \<and> length (last_segment p) > 3)"

text \<open>
  A stand-in for \<open>JSON.parse\<close> and \<open>JSON.stringify\<close>, good for documents without
  string literals: parsing drops the white space, the empty document is a syntax error.
\<close>

definition strip_parse :: "string \<Rightarrow> string option" where
  "strip_parse s =
     (let t = filter (\<lambda>c. c \<noteq> CHR '' '' \<and> c \<noteq> CHR 0x0A) s in if t = [] then None else Some t)"

text \<open>
  The scripted compiler. For \<open>bad.py\<close> it exits with 1 after writing to stderr in two
  chunks; for \<open>warn.py\<close> it exits with 0 after a warning on stderr; for every other
  source it exits with 0, silently, and leaves four files in the output directory.
\<close>

definition scripted_compile :: "string list \<Rightarrow> filesystem \<Rightarrow> int option \<times> string list \<times> filesystem" where
  "scripted_compile args f =
     (if last_segment (args ! 9) = ''bad.py'' then (Some 1, [''bo'', ''om''], f)
      else if last_segment (args ! 9) = ''warn.py'' then (Some 0, [''warn''], f)
      else (Some 0, [],
            f @ [(args ! 11 @ ''/c.py'', File ''echo''),
                 (args ! 11 @ ''/c.tz.json'', File ''[ ]''),
                 (args ! 11 @ ''/contractStorage.tz'', File ''Unit''),
                 (args ! 11 @ ''/notes.txt'', File ''keep'')]))"

definition posix_env :: "string env" where
  "posix_env =
     \<lparr>path_normalize = posix_normalize,
      path_extname = posix_extname,
      path_basename = posix_basename,
      path_isAbsolute = posix_isAbsolute,
      path_relative = below_relative,
      path_sep = ''/'',
      path_join = posix_join,
      colors_red = ansi_red,
      minimatch = py_match,
      JSON_parse = strip_parse,
      JSON_stringify = (\<lambda>j. j),
      find_contracts = (\<lambda>d w. Inr (map fst (filter (\<lambda>e. snd e \<noteq> Dir) (fs w)))),
      Profiler_updated = (\<lambda>opts w. Inr []),
      docker_help = (\<lambda>cmd w. (False, [])),
      docker_compile = scripted_compile\<rparr>"

definition request :: "string list \<Rightarrow> options" where
  "request ps =
     \<lparr>paths = ps,
      working_directory = ''/proj'',
      contracts_directory = ''/proj/contracts'',
      contracts_build_directory = ''/proj/build'',
      quiet = Some True,
      strict = Some False,
      argv = []\<rparr>"

definition world0 :: world where
  "world0 =
     \<lparr>fs = [(''/proj/build'', Dir),
            (''/proj/contracts/x.py'', File ''X''),
            (''/proj/contracts/bad.py'', File ''B''),
            (''/proj/contracts/warn.py'', File ''W''),
            (''/proj/a/foo.py'', File ''A''),
            (''/proj/b/foo.py'', File ''F'')],
      pending = [],
      trace = []\<rparr>"

text \<open>The world after the scripted compiler has run on a source other than the two special ones.\<close>

definition world1 :: world where
  "world1 =
     world0\<lparr>fs := fs world0 @
        [(''/proj/build/c.py'', File ''echo''),
         (''/proj/build/c.tz.json'', File ''[ ]''),
         (''/proj/build/contractStorage.tz'', File ''Unit''),
         (''/proj/build/notes.txt'', File ''keep'')]\<rparr>"

text \<open>
  A build directory that holds an entry with \<open>.py\<close> before a program suffix, and
  after it a program file that is empty, which \<open>JSON.parse\<close> refuses.
\<close>

definition world2 :: world where
  "world2 =
     world0\<lparr>fs := fs world0 @
        [(''/proj/build/foo.py.tz.json'', File ''[ ]''),
         (''/proj/build/notes.txt'', File ''keep''),
         (''/proj/build/zz.tz.json'', File [])]\<rparr>"

section \<open>Properties\<close>

subsection \<open>Basic facts\<close>

lemma foldl_append_concat: "foldl (@) acc xs = acc @ concat xs"
  by (induction xs arbitrary: acc) simp_all

lemma spawn_args_strict: "spawn_args E sp ep (opts\<lparr>strict := s\<rparr>) = spawn_args E sp ep opts"
  by (simp add: spawn_args_def)

lemma launch_strict: "launch E sp ep (opts\<lparr>strict := s\<rparr>) w = launch E sp ep opts w"
  by (simp add: launch_def spawn_args_strict)

subsection \<open>Nothing stale, nothing run\<close>

text \<open>
  C6. When the change detection of \<open>compile.necessary\<close> reports no stale source, the
  callback receives the empty mapping and the empty path list, and the world is the one
  the call started in: no preflight command and no compiler process were started, nothing
  was logged, read or deleted. The request is arbitrary, so this holds whether \<open>quiet\<close>
  is true, false or undefined: with \<open>quiet\<close> true the call goes on into
  \<open>compileSmartPy\<close>, which returns the same at once for an empty path list.
\<close>

theorem necessary_nothing_stale:
  assumes "Profiler_updated E (updateContractsDirectory E opts) w = Inr []"
  shows "compileSmartPy_necessary E opts w = (Inr (Map.empty, [], None), w)"
  using assms
  by (simp add: compileSmartPy_necessary_def compile_necessary_def compileSmartPy_def)

theorem necessary_nothing_stale_witness:
  "compileSmartPy_necessary posix_env (request [''/proj/contracts/x.py'']) world0
     = (Inr (Map.empty, [], None), world0) \<and>
   compileSmartPy_necessary posix_env
       ((request [''/proj/contracts/x.py''])\<lparr>quiet := Some False\<rparr>) world0
     = (Inr (Map.empty, [], None), world0)"
  using necessary_nothing_stale [of posix_env "request [''/proj/contracts/x.py'']" world0]
        necessary_nothing_stale
          [of posix_env "(request [''/proj/contracts/x.py''])\<lparr>quiet := Some False\<rparr>" world0]
  by (simp add: posix_env_def)

subsection \<open>The outcome of one compiler process\<close>

text \<open>
  What one call of \<open>execSmartPy\<close> yields, for any value of the \<open>strict\<close> flag of
  the request: if the process ends with a code other than 0 or anything was written to
  its stderr, the call rejects with the text of stderr, a line break and the (red) line
  naming the source path; otherwise it resolves with the basename of the source path
  without its extension.
\<close>

theorem execSmartPy_outcome:
  assumes "docker_compile E (spawn_args E sp ep opts) (fs (run_pending (launch E sp ep opts w)))
             = (code, chunks, f)"
  shows "fst (execSmartPy E sp ep (opts\<lparr>strict := s\<rparr>) w) =
           (if code \<noteq> Some 0 \<or> concat chunks \<noteq> []
            then Inl (CompileError (concat chunks @ [CHR 0x0A] @
                        colors_red E (''Compilation of '' @ sp @ '' failed. See above.'')))
            else Inr (path_basename E sp (path_extname E sp)))"
  using assms
  by (simp add: execSmartPy_def spawn_args_strict launch_strict Let_def on_close_def
        contract_name_def foldl_append_concat)

theorem execSmartPy_outcome_witness:
  "fst (execSmartPy posix_env ''/proj/contracts/x.py'' None
          ((request [])\<lparr>strict := Some False\<rparr>) world0) = Inr ''x'' \<and>
   fst (execSmartPy posix_env ''/proj/contracts/bad.py'' None
          ((request [])\<lparr>strict := Some False\<rparr>) world0) =
     Inl (CompileError (''boom'' @ [CHR 0x0A] @
            ansi_red ''Compilation of /proj/contracts/bad.py failed. See above.''))"
proof -
  have good: "docker_compile posix_env
                (spawn_args posix_env ''/proj/contracts/x.py'' None (request []))
                (fs (run_pending (launch posix_env ''/proj/contracts/x.py'' None (request []) world0)))
              = (Some 0, [], fs world0 @
                   [(''/proj/build/c.py'', File ''echo''),
                    (''/proj/build/c.tz.json'', File ''[ ]''),
                    (''/proj/build/contractStorage.tz'', File ''Unit''),
                    (''/proj/build/notes.txt'', File ''keep'')])"
    by code_simp
  have bad: "docker_compile posix_env
               (spawn_args posix_env ''/proj/contracts/bad.py'' None (request []))
               (fs (run_pending (launch posix_env ''/proj/contracts/bad.py'' None (request []) world0)))
             = (Some 1, [''bo'', ''om''], fs world0)"
    by code_simp
  have x: "path_basename posix_env ''/proj/contracts/x.py''
             (path_extname posix_env ''/proj/contracts/x.py'') = ''x''"
    by code_simp
  have red: "colors_red posix_env = ansi_red"
    by (simp add: posix_env_def)
  show ?thesis
    using execSmartPy_outcome [OF good, of "Some False"]
          execSmartPy_outcome [OF bad, of "Some False"] x red
    by simp
qed

text \<open>
  C1 does not hold of the code. The comments above \<open>compile.all\<close> and
  \<open>compile.necessary\<close> document the option (\<open>strict: Boolean. Return compiler
  warnings as errors. Defaults to false.\<close>), and the claim says that an invocation which
  exits with 0 after writing to stderr is not a failure when \<open>strict\<close> is explicitly
  false. The module never reads the option: with \<open>strict\<close> false, the process for
  \<open>warn.py\<close> exits with 0 after a warning on stderr, and \<open>execSmartPy\<close> rejects.
\<close>

theorem warning_fails_when_not_strict:
  "strict (request []) = Some False \<and>
   fst (scripted_compile
          (spawn_args posix_env ''/proj/contracts/warn.py'' None (request [])) (fs world0))
     = Some 0 \<and>
   fst (execSmartPy posix_env ''/proj/contracts/warn.py'' None (request []) world0) =
     Inl (CompileError (''warn'' @ [CHR 0x0A] @
            ansi_red ''Compilation of /proj/contracts/warn.py failed. See above.''))"
  by code_simp

subsection \<open>Substrings\<close>

lemma str_includes_iff: "str_includes s sub \<longleftrightarrow> (\<exists>p q. s = p @ sub @ q)"
proof (induction s)
  case Nil
  then show ?case by auto
next
  case (Cons c cs)
  have "take (length sub) (c # cs) = sub \<longleftrightarrow> (\<exists>q. c # cs = sub @ q)"
    by (metis append_eq_conv_conj append_take_drop_id)
  moreover have "(\<exists>p q. c # cs = p @ sub @ q) \<longleftrightarrow> (\<exists>q. c # cs = sub @ q) \<or> (\<exists>p q. cs = p @ sub @ q)"
  proof
    assume "\<exists>p q. c # cs = p @ sub @ q"
    then obtain p q where pq: "c # cs = p @ sub @ q" by blast
    show "(\<exists>q. c # cs = sub @ q) \<or> (\<exists>p q. cs = p @ sub @ q)"
    proof (cases p)
      case Nil
      with pq show ?thesis by auto
    next
      case (Cons a p')
      with pq have "cs = p' @ sub @ q" by simp
      then show ?thesis by blast
    qed
  next
    assume "(\<exists>q. c # cs = sub @ q) \<or> (\<exists>p q. cs = p @ sub @ q)"
    then show "\<exists>p q. c # cs = p @ sub @ q"
    proof
      assume "\<exists>q. c # cs = sub @ q"
      then obtain q where "c # cs = [] @ sub @ q" by auto
      then show ?thesis by blast
    next
      assume "\<exists>p q. cs = p @ sub @ q"
      then obtain p q where "cs = p @ sub @ q" by blast
      then have "c # cs = (c # p) @ sub @ q" by simp
      then show ?thesis by blast
    qed
  qed
  ultimately show ?case using Cons.IH by simp
qed

lemma str_includes_middle: "str_includes (pre @ sub @ post) sub"
  by (auto simp: str_includes_iff)

lemma tz_json_is_tz: "str_includes file ''.tz.json'' \<Longrightarrow> str_includes file ''.tz''"
proof -
  assume "str_includes file ''.tz.json''"
  then obtain p q where "file = p @ ''.tz.json'' @ q" by (auto simp: str_includes_iff)
  then have "file = p @ ''.tz'' @ (''.json'' @ q)" by simp
  then show ?thesis unfolding str_includes_iff by blast
qed

subsection \<open>Traces\<close>

lemma extends_iff: "extends P w w' \<longleftrightarrow> (\<exists>t. trace w' = trace w @ t \<and> list_all P t)"
proof
  assume e: "extends P w w'"
  then have "take (length (trace w)) (trace w') @ drop (length (trace w)) (trace w') =
             trace w @ drop (length (trace w)) (trace w')"
    by (simp only: extends_def)
  then have "trace w' = trace w @ drop (length (trace w)) (trace w')"
    by (simp only: append_take_drop_id)
  moreover from e have "list_all P (drop (length (trace w)) (trace w'))"
    by (simp add: extends_def)
  ultimately show "\<exists>t. trace w' = trace w @ t \<and> list_all P t" by blast
next
  assume "\<exists>t. trace w' = trace w @ t \<and> list_all P t"
  then show "extends P w w'" by (auto simp: extends_def)
qed

lemma extends_refl: "extends P w w"
  by (simp add: extends_def)

lemma extends_same_trace: "trace w' = trace w \<Longrightarrow> extends P w w'"
  by (simp add: extends_def)

lemma extends_trans: "extends P w w1 \<Longrightarrow> extends P w1 w2 \<Longrightarrow> extends P w w2"
  by (auto simp: extends_iff)

lemma extends_emit: "P e \<Longrightarrow> extends P w (emit e w)"
  by (simp add: extends_iff emit_def)

subsection \<open>What the file system calls change\<close>

lemma snd_readFileSync: "snd (readFileSync p w) = emit (ReadFile p) w"
  by (simp add: readFileSync_def split: option.split node.split)

lemma trace_unlinkSync: "trace (snd (unlinkSync p w)) = trace w @ [Unlink p]"
  by (simp add: unlinkSync_def emit_def split: option.split node.split)

lemma map_of_remove_path: "map_of (remove_path p f) q = (if q = p then None else map_of f q)"
  by (induction f) (auto simp: remove_path_def)

lemma fs_unlinkSync_other: "q \<noteq> p \<Longrightarrow> map_of (fs (snd (unlinkSync p w))) q = map_of (fs w) q"
  by (simp add: unlinkSync_def emit_def map_of_remove_path split: option.split node.split)

lemma readFileSync_extends: "P (ReadFile p) \<Longrightarrow> extends P w (snd (readFileSync p w))"
  by (simp add: snd_readFileSync extends_emit)

lemma unlinkSync_extends: "P (Unlink p) \<Longrightarrow> extends P w (snd (unlinkSync p w))"
  by (simp add: extends_iff trace_unlinkSync)

lemma discard_snd: "snd (discard p vars w) = snd (unlinkSync p w)"
  by (simp add: discard_def split: prod.split sum.split)

lemma capture_storage_cases:
  "snd (capture_storage p vars w) = snd (readFileSync p w) \<or>
   snd (capture_storage p vars w) = snd (unlinkSync p (snd (readFileSync p w)))"
  by (simp add: capture_storage_def split: prod.split sum.split)

lemma capture_michelson_cases:
  "snd (capture_michelson E p vars w) = snd (readFileSync p w) \<or>
   snd (capture_michelson E p vars w) = snd (unlinkSync p (snd (readFileSync p w)))"
  by (simp add: capture_michelson_def split: prod.split sum.split option.split)


lemma discard_extends: "P (Unlink p) \<Longrightarrow> extends P w (snd (discard p vars w))"
  by (simp add: discard_snd unlinkSync_extends)

lemma capture_storage_extends:
  assumes "P (ReadFile p)" "P (Unlink p)"
  shows "extends P w (snd (capture_storage p vars w))"
proof -
  have r: "extends P w (snd (readFileSync p w))"
    by (rule readFileSync_extends) (rule assms)
  have "extends P (snd (readFileSync p w)) (snd (unlinkSync p (snd (readFileSync p w))))"
    by (rule unlinkSync_extends) (rule assms)
  with r have "extends P w (snd (unlinkSync p (snd (readFileSync p w))))"
    by (rule extends_trans)
  with r show ?thesis
    using capture_storage_cases [of p vars w] by auto
qed

lemma capture_michelson_extends:
  assumes "P (ReadFile p)" "P (Unlink p)"
  shows "extends P w (snd (capture_michelson E p vars w))"
proof -
  have r: "extends P w (snd (readFileSync p w))"
    by (rule readFileSync_extends) (rule assms)
  have "extends P (snd (readFileSync p w)) (snd (unlinkSync p (snd (readFileSync p w))))"
    by (rule unlinkSync_extends) (rule assms)
  with r have "extends P w (snd (unlinkSync p (snd (readFileSync p w))))"
    by (rule extends_trans)
  with r show ?thesis
    using capture_michelson_cases [of E p vars w] by auto
qed

lemma fs_readFileSync: "fs (snd (readFileSync p w)) = fs w"
  by (simp add: snd_readFileSync emit_def)

lemma discard_fs_other: "q \<noteq> p \<Longrightarrow> map_of (fs (snd (discard p vars w))) q = map_of (fs w) q"
  by (simp add: discard_snd fs_unlinkSync_other)

lemma capture_storage_fs_other:
  "q \<noteq> p \<Longrightarrow> map_of (fs (snd (capture_storage p vars w))) q = map_of (fs w) q"
  using capture_storage_cases [of p vars w]
  by (auto simp: fs_readFileSync fs_unlinkSync_other)

lemma capture_michelson_fs_other:
  "q \<noteq> p \<Longrightarrow> map_of (fs (snd (capture_michelson E p vars w))) q = map_of (fs w) q"
  using capture_michelson_cases [of E p vars w]
  by (auto simp: fs_readFileSync fs_unlinkSync_other)

subsection \<open>Reconciling the build directory\<close>

lemma reconcile_file_classify:
  "reconcile_file E dir file vars w =
     (case classify file of
        SourceEcho \<Rightarrow> discard (dir @ ''/'' @ file) vars w
      | CompiledProgram \<Rightarrow> capture_michelson E (dir @ ''/'' @ file) vars w
      | RawOutput \<Rightarrow>
          if file = ''contractStorage.tz'' then capture_storage (dir @ ''/'' @ file) vars w
          else discard (dir @ ''/'' @ file) vars w
      | Unrecognized \<Rightarrow> (Inr vars, w))"
  by (simp add: reconcile_file_def classify_def Let_def)

lemma reconcile_file_extends:
  assumes "classify file \<noteq> Unrecognized \<Longrightarrow>
             P (ReadFile (dir @ ''/'' @ file)) \<and> P (Unlink (dir @ ''/'' @ file))"
  shows "extends P w (snd (reconcile_file E dir file vars w))"
  using assms
  by (cases "classify file")
     (auto simp: reconcile_file_classify extends_refl
        intro: discard_extends capture_michelson_extends capture_storage_extends)

lemma reconcile_file_fs_other:
  assumes "classify file \<noteq> Unrecognized \<Longrightarrow> q \<noteq> dir @ ''/'' @ file"
  shows "map_of (fs (snd (reconcile_file E dir file vars w))) q = map_of (fs w) q"
  using assms
  by (cases "classify file")
     (auto simp: reconcile_file_classify
        intro: discard_fs_other capture_michelson_fs_other capture_storage_fs_other)

lemma reconcile_extends:
  assumes "\<And>g. g \<in> set files \<Longrightarrow> classify g \<noteq> Unrecognized \<Longrightarrow>
             P (ReadFile (dir @ ''/'' @ g)) \<and> P (Unlink (dir @ ''/'' @ g))"
  shows "extends P w (snd (reconcile E dir files vars w))"
  using assms
proof (induction files arbitrary: vars w)
  case Nil
  then show ?case by (simp add: extends_refl)
next
  case (Cons x files)
  have step: "extends P w (snd (reconcile_file E dir x vars w))"
    by (rule reconcile_file_extends) (use Cons.prems in auto)
  show ?case
  proof (cases "reconcile_file E dir x vars w")
    case (Pair r w1)
    show ?thesis
    proof (cases r)
      case (Inl e)
      with Pair step show ?thesis by simp
    next
      case (Inr vars1)
      have "extends P w1 (snd (reconcile E dir files vars1 w1))"
        by (rule Cons.IH) (use Cons.prems in auto)
      with Pair Inr step show ?thesis by (auto intro: extends_trans)
    qed
  qed
qed

lemma reconcile_fs_other:
  assumes "\<And>g. g \<in> set files \<Longrightarrow> classify g \<noteq> Unrecognized \<Longrightarrow> q \<noteq> dir @ ''/'' @ g"
  shows "map_of (fs (snd (reconcile E dir files vars w))) q = map_of (fs w) q"
  using assms
proof (induction files arbitrary: vars w)
  case Nil
  then show ?case by simp
next
  case (Cons x files)
  have step: "map_of (fs (snd (reconcile_file E dir x vars w))) q = map_of (fs w) q"
    by (rule reconcile_file_fs_other) (use Cons.prems in auto)
  show ?case
  proof (cases "reconcile_file E dir x vars w")
    case (Pair r w1)
    show ?thesis
    proof (cases r)
      case (Inl e)
      with Pair step show ?thesis by simp
    next
      case (Inr vars1)
      have "map_of (fs (snd (reconcile E dir files vars1 w1))) q = map_of (fs w1) q"
        by (rule Cons.IH) (use Cons.prems in auto)
      with Pair Inr step show ?thesis by simp
    qed
  qed
qed

text \<open>
  C7. The callback treats an entry by the first rule of the specification that matches its
  name, in the order source echo, JSON-encoded program, raw output: \<open>classify\<close> is
  that rule, and each class has its own treatment. An entry \<open>f\<close> that matches none of the
  rules is left alone by the whole pass over any listing, however the pass ends: its own
  step returns the variables and the world as they are, the file system holds at its path
  what it held before, and no event the pass adds to the trace reads or deletes that path.
\<close>

theorem reconcile_order_and_frame:
  "reconcile_file E dir file vars w =
     (case classify file of
        SourceEcho \<Rightarrow> discard (dir @ ''/'' @ file) vars w
      | CompiledProgram \<Rightarrow> capture_michelson E (dir @ ''/'' @ file) vars w
      | RawOutput \<Rightarrow>
          if file = ''contractStorage.tz'' then capture_storage (dir @ ''/'' @ file) vars w
          else discard (dir @ ''/'' @ file) vars w
      | Unrecognized \<Rightarrow> (Inr vars, w)) \<and>
   (classify f = Unrecognized \<longrightarrow>
      map_of (fs (snd (reconcile E dir files vars w))) (dir @ ''/'' @ f)
        = map_of (fs w) (dir @ ''/'' @ f) \<and>
      extends (spares (dir @ ''/'' @ f)) w (snd (reconcile E dir files vars w)))"
proof -
  have "map_of (fs (snd (reconcile E dir files vars w))) (dir @ ''/'' @ f)
          = map_of (fs w) (dir @ ''/'' @ f)"
    if "classify f = Unrecognized"
    by (rule reconcile_fs_other) (use that in auto)
  moreover have "extends (spares (dir @ ''/'' @ f)) w (snd (reconcile E dir files vars w))"
    if "classify f = Unrecognized"
    by (rule reconcile_extends) (use that in \<open>auto simp: spares_def\<close>)
  ultimately show ?thesis
    by (simp add: reconcile_file_classify)
qed

theorem reconcile_order_and_frame_witness:
  "classify ''c.py'' = SourceEcho \<and>
   classify ''c.tz.json'' = CompiledProgram \<and>
   classify ''contractStorage.tz'' = RawOutput \<and>
   classify ''notes.txt'' = Unrecognized \<and>
   reconcile_file posix_env ''/proj/build'' ''c.tz.json'' (None, None) world1 =
     capture_michelson posix_env ''/proj/build/c.tz.json'' (None, None) world1 \<and>
   map_of (fs (snd (reconcile posix_env ''/proj/build''
                      [''c.py'', ''c.tz.json'', ''contractStorage.tz'', ''notes.txt'']
                      (None, None) world1)))
     ''/proj/build/notes.txt'' = Some (File ''keep'') \<and>
   extends (spares ''/proj/build/notes.txt'') world1
     (snd (reconcile posix_env ''/proj/build''
             [''c.py'', ''c.tz.json'', ''contractStorage.tz'', ''notes.txt'']
             (None, None) world1))"
proof -
  have c: "classify ''c.py'' = SourceEcho" "classify ''c.tz.json'' = CompiledProgram"
    "classify ''contractStorage.tz'' = RawOutput" "classify ''notes.txt'' = Unrecognized"
    by code_simp+
  have m: "map_of (fs world1) ''/proj/build/notes.txt'' = Some (File ''keep'')"
    by code_simp
  show ?thesis
    using reconcile_order_and_frame
            [of posix_env "''/proj/build''" "''c.tz.json''" "(None, None)" world1 "''notes.txt''"
                "[''c.py'', ''c.tz.json'', ''contractStorage.tz'', ''notes.txt'']"]
    by (simp add: c m)
qed

subsection \<open>The process that is started\<close>

lemma trace_run_pending: "trace (run_pending w) = trace w"
  by (simp add: run_pending_def)

lemma trace_launch:
  "trace (launch E sp ep opts w) =
     trace w @
     (if existsSync (contracts_build_directory opts) w then []
      else [Mkdirp (contracts_build_directory opts)]) @
     [Spawn ''docker'' (spawn_args E sp ep opts)]"
  by (simp add: launch_def emit_def mkdirp_request_def)

lemma trace_execSmartPy:
  "trace (snd (execSmartPy E sp ep opts w)) = trace (launch E sp ep opts w)"
  by (simp add: execSmartPy_def Let_def trace_run_pending split: prod.split)

text \<open>
  C5. Every call of \<open>execSmartPy\<close> starts exactly one process, \<open>docker\<close>, after at
  most a request to create the build directory, with these twelve arguments: the
  normalized working directory on both sides of the colon and after \<open>-w\<close>, the image,
  \<open>compile\<close>, the normalized source path with every backslash replaced by a slash (no
  backslash is left in it), the entry expression and the build directory. The entry
  expression is the entry point followed by \<open>()\<close> when one is supplied (a non-empty
  string), and else the basename of the source path without its extension followed by
  \<open>()\<close>.
\<close>

theorem spawn_arguments:
  "trace (snd (execSmartPy E sp ep opts w)) =
     trace w @
     (if existsSync (contracts_build_directory opts) w then []
      else [Mkdirp (contracts_build_directory opts)]) @
     [Spawn ''docker''
        [''run'',
         ''-v'',
         path_normalize E (working_directory opts) @ '':'' @
           path_normalize E (working_directory opts),
         ''-w'',
         path_normalize E (working_directory opts),
         ''--rm'',
         ''-i'',
         ''trufflesuite/smartpy-basic:0.0.1'',
         ''compile'',
         map (\<lambda>c. if c = CHR 0x5C then CHR ''/'' else c) (path_normalize E sp),
         (case ep of
            None \<Rightarrow> path_basename E sp (path_extname E sp)
          | Some e \<Rightarrow> if e = [] then path_basename E sp (path_extname E sp) else e) @ ''()'',
         contracts_build_directory opts]] \<and>
   CHR 0x5C \<notin> set (spawn_args E sp ep opts ! 9)"
  by (auto simp: trace_execSmartPy trace_launch spawn_args_def Let_def replace_backslashes_def
        contract_name_def split: option.split)

theorem spawn_arguments_witness:
  "trace (snd (execSmartPy posix_env ''/proj/lib/../contracts/./x.py'' None (request []) world0)) =
     [Spawn ''docker''
        [''run'', ''-v'', ''/proj:/proj'', ''-w'', ''/proj'', ''--rm'', ''-i'',
         ''trufflesuite/smartpy-basic:0.0.1'', ''compile'', ''/proj/contracts/x.py'', ''x()'',
         ''/proj/build'']] \<and>
   trace (snd (execSmartPy posix_env ''/proj/contracts/x.py'' (Some ''Main'') (request []) world0)) =
     [Spawn ''docker''
        [''run'', ''-v'', ''/proj:/proj'', ''-w'', ''/proj'', ''--rm'', ''-i'',
         ''trufflesuite/smartpy-basic:0.0.1'', ''compile'', ''/proj/contracts/x.py'', ''Main()'',
         ''/proj/build'']]"
proof -
  have e: "existsSync ''/proj/build'' world0"
    by code_simp
  have t: "trace world0 = []"
    by code_simp
  have wd: "path_normalize posix_env (working_directory (request [])) = ''/proj''"
    by code_simp
  have b: "contracts_build_directory (request []) = ''/proj/build''"
    by code_simp
  have n1: "path_normalize posix_env ''/proj/lib/../contracts/./x.py'' = ''/proj/contracts/x.py''"
    by code_simp
  have n2: "path_normalize posix_env ''/proj/contracts/x.py'' = ''/proj/contracts/x.py''"
    by code_simp
  have x: "path_basename posix_env ''/proj/lib/../contracts/./x.py''
             (path_extname posix_env ''/proj/lib/../contracts/./x.py'') = ''x''"
    by code_simp
  show ?thesis
    using spawn_arguments [of posix_env "''/proj/lib/../contracts/./x.py''" None "request []" world0]
          spawn_arguments [of posix_env "''/proj/contracts/x.py''" "Some ''Main''" "request []" world0]
    by (simp add: e t wd b n1 n2 x)
qed

subsection \<open>The whole run\<close>

lemma fold_emit_extends:
  assumes "\<And>x. x \<in> set xs \<Longrightarrow> P (g x)"
  shows "extends P w (fold (\<lambda>x. emit (g x)) xs w)"
  using assms
proof (induction xs arbitrary: w)
  case Nil
  then show ?case by (simp add: extends_refl)
next
  case (Cons x xs)
  have "extends P w (emit (g x) w)"
    by (rule extends_emit) (use Cons.prems in auto)
  moreover have "extends P (emit (g x) w) (fold (\<lambda>x. emit (g x)) xs (emit (g x) w))"
    by (rule Cons.IH) (use Cons.prems in auto)
  ultimately show ?case by (auto intro: extends_trans)
qed

lemma display_extends:
  assumes "\<And>s. P (Log s)"
  shows "extends P w (snd (display E ps opts w))"
  by (simp add: display_def extends_refl fold_emit_extends assms)

lemma snd_checkSmartPy: "snd (checkSmartPy E w) = emit (Exec help_command) w"
  by (simp add: checkSmartPy_def split: prod.split)

lemma execSmartPy_extends:
  assumes "P (Mkdirp (contracts_build_directory opts))"
    and "P (Spawn ''docker'' (spawn_args E sp ep opts))"
  shows "extends P w (snd (execSmartPy E sp ep opts w))"
  using assms by (simp add: extends_iff trace_execSmartPy trace_launch)

lemma trace_readdirSync: "snd (readdirSync d w) = w"
  by (simp add: readdirSync_def split: option.split node.split)

lemma compile_one_extends:
  assumes "P (Mkdirp (contracts_build_directory opts))"
    and "P (Spawn ''docker'' (spawn_args E sp ep opts))"
    and "\<And>p. P (ReadFile p)" and "\<And>p. P (Unlink p)"
  shows "extends P w (snd (compile_one E opts ep sp w))"
proof -
  let ?w1 = "snd (execSmartPy E sp ep opts w)"
  let ?w2 = "snd (readFileSync sp ?w1)"
  have 1: "extends P w ?w1"
    by (rule execSmartPy_extends) (rule assms)+
  have "extends P ?w1 ?w2"
    by (rule readFileSync_extends) (rule assms)
  with 1 have 2: "extends P w ?w2"
    by (rule extends_trans)
  have 3: "extends P w (snd (reconcile E d files vars ?w2))" for d files vars
    by (rule extends_trans [OF 2]) (rule reconcile_extends, simp add: assms)
  show ?thesis
  proof (cases "execSmartPy E sp ep opts w")
    case a: (Pair r1 w1)
    show ?thesis
    proof (cases r1)
      case (Inl e)
      with a 1 show ?thesis by (simp add: compile_one_def)
    next
      case b: (Inr cn)
      show ?thesis
      proof (cases "readFileSync sp w1")
        case c: (Pair r2 w2)
        show ?thesis
        proof (cases r2)
          case (Inl e)
          with a b c 2 show ?thesis by (simp add: compile_one_def)
        next
          case d: (Inr src)
          show ?thesis
          proof (cases "readdirSync (contracts_build_directory opts) w2")
            case e: (Pair r3 w3)
            from e have w3: "w3 = w2"
              using trace_readdirSync [of "contracts_build_directory opts" w2] by simp
            show ?thesis
            proof (cases r3)
              case (Inl err)
              with a b c d e w3 2 show ?thesis by (simp add: compile_one_def)
            next
              case f: (Inr listing)
              from 3 [of "contracts_build_directory opts" listing "(None, None)"] a c
              have "extends P w
                      (snd (reconcile E (contracts_build_directory opts) listing (None, None) w2))"
                by simp
              with a b c d e f w3 show ?thesis
                by (auto simp: compile_one_def split: prod.split sum.split)
            qed
          qed
        qed
      qed
    qed
  qed
qed

lemma compile_loop_extends:
  assumes "P (Mkdirp (contracts_build_directory opts))"
    and "\<And>sp. P (Spawn ''docker'' (spawn_args E sp ep opts))"
    and "\<And>p. P (ReadFile p)" and "\<And>p. P (Unlink p)"
  shows "extends P w (snd (compile_loop E opts ep ps cs w))"
proof (induction ps arbitrary: cs w)
  case Nil
  then show ?case by (simp add: extends_refl)
next
  case (Cons sp ps)
  have step: "extends P w (snd (compile_one E opts ep sp w))"
    by (rule compile_one_extends) (rule assms)+
  show ?case
  proof (cases "compile_one E opts ep sp w")
    case (Pair r w1)
    show ?thesis
    proof (cases r)
      case (Inl e)
      with Pair step show ?thesis by simp
    next
      case (Inr c)
      with Pair step Cons.IH [of w1 "cs @ [c]"] show ?thesis
        by (auto intro: extends_trans)
    qed
  qed
qed

lemma compileAll_extends:
  assumes "P (Mkdirp (contracts_build_directory opts))"
    and "\<And>sp. P (Spawn ''docker'' (spawn_args E sp (entry_point opts) opts))"
    and "\<And>p. P (ReadFile p)" and "\<And>p. P (Unlink p)" and "\<And>s. P (Log s)"
  shows "extends P w (snd (compileAll E opts w))"
proof -
  obtain ps w1 where d: "display E (paths opts) opts w = (ps, w1)"
    by (cases "display E (paths opts) opts w")
  have 1: "extends P w w1"
    using display_extends [of P w E "paths opts" opts] assms(5) d by simp
  have 2: "extends P w1 (snd (compile_loop E opts (entry_point opts) ps [] w1))"
    by (rule compile_loop_extends) (rule assms)+
  from 1 2 have "extends P w (snd (compile_loop E opts (entry_point opts) ps [] w1))"
    by (rule extends_trans)
  then show ?thesis
    by (cases "compile_loop E opts (entry_point opts) ps [] w1")
       (auto simp: compileAll_def d split: sum.split)
qed

lemma spawn_args_image: "take 1 (drop 7 (spawn_args E sp ep opts)) = [''trufflesuite/smartpy-basic:0.0.1'']"
  by (simp add: spawn_args_def Let_def)

lemma spawn_args_paths: "spawn_args E sp ep (opts\<lparr>paths := ps\<rparr>) = spawn_args E sp ep opts"
  by (simp add: spawn_args_def)

lemma compileSmartPy_extends:
  "extends (on_image ''trufflesuite/smartpy-basic:0.0.1'') w (snd (compileSmartPy E opts w))"
proof -
  let ?P = "on_image ''trufflesuite/smartpy-basic:0.0.1''"
  have 1: "extends ?P w (snd (checkSmartPy E w))"
    by (simp add: snd_checkSmartPy extends_emit help_command_def)
  have 2: "extends ?P (snd (checkSmartPy E w)) (snd (compileAll E opts' (snd (checkSmartPy E w))))"
    for opts'
    by (rule compileAll_extends) (simp_all add: spawn_args_def Let_def)
  have 3: "extends ?P w (snd (compileAll E opts' (snd (checkSmartPy E w))))" for opts'
    by (rule extends_trans [OF 1 2])
  show ?thesis
    using 1 3
    by (cases "checkSmartPy E w")
       (auto simp: compileSmartPy_def Let_def extends_refl split: sum.split)
qed


subsection \<open>The records\<close>

lemma execSmartPy_Inr:
  assumes "execSmartPy E sp ep opts w = (Inr cn, w1)"
  shows "cn = contract_name E sp"
  using assms
  by (auto simp: execSmartPy_def Let_def on_close_def split: prod.splits if_splits)

lemma compile_one_record:
  assumes "compile_one E opts ep sp w = (Inr c, w')"
  shows "compilerId c = compiler \<and> sourcePath c = sp \<and> contractName c = contract_name E sp"
  using assms
  by (auto simp: compile_one_def dest: execSmartPy_Inr split: prod.splits sum.splits)

lemma compile_loop_records:
  assumes "compile_loop E opts ep ps cs w = (Inr cs', w')"
  shows "\<exists>new. cs' = cs @ new \<and> map sourcePath new = ps \<and>
           list_all (\<lambda>c. compilerId c = compiler \<and>
                         contractName c = contract_name E (sourcePath c)) new"
  using assms
proof (induction ps arbitrary: cs w)
  case Nil
  then show ?case by simp
next
  case (Cons sp ps)
  obtain r w1 where one': "compile_one E opts ep sp w = (r, w1)"
    by (cases "compile_one E opts ep sp w")
  with Cons.prems obtain c where r: "r = Inr c"
    by (cases r) simp_all
  from one' r have one: "compile_one E opts ep sp w = (Inr c, w1)"
    by simp
  with Cons.prems have rest: "compile_loop E opts ep ps (cs @ [c]) w1 = (Inr cs', w')"
    by simp
  from Cons.IH [OF rest] obtain new where
    new: "cs' = (cs @ [c]) @ new" "map sourcePath new = ps"
      "list_all (\<lambda>c. compilerId c = compiler \<and>
                     contractName c = contract_name E (sourcePath c)) new"
    by blast
  from compile_one_record [OF one]
  have c: "compilerId c = compiler" "sourcePath c = sp" "contractName c = contract_name E sp"
    by simp_all
  show ?case
  proof (intro exI conjI)
    show "cs' = cs @ (c # new)"
      using new(1) by simp
    show "map sourcePath (c # new) = sp # ps"
      using new(2) c(2) by simp
    show "list_all (\<lambda>c. compilerId c = compiler \<and>
                      contractName c = contract_name E (sourcePath c)) (c # new)"
      using new(3) c by simp
  qed
qed

lemma foldl_update_find:
  "foldl (\<lambda>result c. result(contractName c \<mapsto> c)) m cs k =
     (case find (\<lambda>c. contractName c = k) (rev cs) of None \<Rightarrow> m k | Some c \<Rightarrow> Some c)"
  by (induction cs rule: rev_induct) simp_all

lemma aggregate_find: "aggregate cs k = find (\<lambda>c. contractName c = k) (rev cs)"
  by (simp add: aggregate_def foldl_update_find split: option.split)

lemma find_in_set: "find P xs = Some x \<Longrightarrow> x \<in> set xs \<and> P x"
  by (induction xs) (auto split: if_splits)

lemma find_map_sourcePath:
  assumes "list_all (\<lambda>c. contractName c = g (sourcePath c)) cs"
  shows "map_option sourcePath (find (\<lambda>c. contractName c = k) cs) =
           find (\<lambda>p. g p = k) (map sourcePath cs)"
  using assms by (induction cs) auto

lemma compileAll_result:
  assumes "compileAll E opts w = (Inr (result, ps, c), w')"
  shows "\<exists>cs. result = aggregate cs \<and> map sourcePath cs = ps \<and> c = Some compiler \<and>
           ps = fst (display E (paths opts) opts w) \<and>
           list_all (\<lambda>c. compilerId c = compiler \<and>
                         contractName c = contract_name E (sourcePath c)) cs"
proof -
  obtain ps0 w1 where d: "display E (paths opts) opts w = (ps0, w1)"
    by (cases "display E (paths opts) opts w")
  from assms d obtain cs where
    l: "compile_loop E opts (entry_point opts) ps0 [] w1 = (Inr cs, w')" and
    r: "result = aggregate cs" "ps = ps0" "c = Some compiler"
    by (auto simp: compileAll_def split: prod.splits sum.splits)
  from compile_loop_records [OF l] have
    "map sourcePath cs = ps0 \<and>
     list_all (\<lambda>c. compilerId c = compiler \<and>
                   contractName c = contract_name E (sourcePath c)) cs"
    by simp
  with r d show ?thesis
    by (intro exI [of _ cs]) simp
qed

lemma fst_display:
  "fst (display E ps opts w) = (if quiet opts = Some True then ps else sort ps)"
  by (simp add: display_def)

text \<open>
  C2, as the code has it. Two source paths with the same logical name do not make the
  request fail: there is no check. Whenever \<open>compileAll\<close> succeeds, the paths it
  returns are the paths of the request in the order they were compiled, which is the order
  of the request when \<open>quiet\<close> is true and the sorted order otherwise; and the mapping
  holds under each logical name \<open>k\<close> the record of one source path, the last path with
  that name in that order. The record of any earlier path with the name is overwritten.
\<close>

theorem later_record_overwrites:
  assumes "compileAll E opts w = (Inr (result, ps, c), w')"
  shows "ps = (if quiet opts = Some True then paths opts else sort (paths opts)) \<and>
         map_option sourcePath (result k) =
           find (\<lambda>p. path_basename E p (path_extname E p) = k)
             (rev (if quiet opts = Some True then paths opts else sort (paths opts)))"
proof -
  from compileAll_result [OF assms] obtain cs where
    cs: "result = aggregate cs" "map sourcePath cs = ps"
      "ps = fst (display E (paths opts) opts w)"
      "list_all (\<lambda>c. compilerId c = compiler \<and>
                     contractName c = contract_name E (sourcePath c)) cs"
    by blast
  from cs(3) have ps: "ps = (if quiet opts = Some True then paths opts else sort (paths opts))"
    by (simp only: fst_display)
  from cs(4) have "list_all (\<lambda>c. contractName c = contract_name E (sourcePath c)) (rev cs)"
    by (simp add: list_all_iff)
  from find_map_sourcePath [OF this, of k]
  have "map_option sourcePath (find (\<lambda>c. contractName c = k) (rev cs)) =
          find (\<lambda>p. contract_name E p = k) (map sourcePath (rev cs))" .
  moreover from cs(2) have "map sourcePath (rev cs) = rev ps"
    by (simp add: rev_map [symmetric])
  ultimately have "map_option sourcePath (result k) =
                     find (\<lambda>p. path_basename E p (path_extname E p) = k) (rev ps)"
    by (simp add: cs(1) aggregate_find contract_name_def)
  with ps show ?thesis
    by simp
qed

theorem later_record_overwrites_witness:
  "map_option sourcePath
     (fst (projr (fst (compileAll posix_env
                         ((request [''/proj/b/foo.py'', ''/proj/a/foo.py''])\<lparr>quiet := None\<rparr>)
                         world0))) ''foo'')
     = Some ''/proj/b/foo.py'' \<and>
   fst (snd (projr (fst (compileAll posix_env
                           ((request [''/proj/b/foo.py'', ''/proj/a/foo.py''])\<lparr>quiet := None\<rparr>)
                           world0))))
     = [''/proj/a/foo.py'', ''/proj/b/foo.py''] \<and>
   map_option sourcePath
     (fst (projr (fst (compileAll posix_env
                         (request [''/proj/b/foo.py'', ''/proj/a/foo.py'']) world0))) ''foo'')
     = Some ''/proj/a/foo.py''"
proof -
  let ?o = "(request [''/proj/b/foo.py'', ''/proj/a/foo.py''])\<lparr>quiet := None\<rparr>"
  let ?q = "request [''/proj/b/foo.py'', ''/proj/a/foo.py'']"
  let ?r = "compileAll posix_env ?o world0"
  let ?s = "compileAll posix_env ?q world0"
  have i: "\<not> isl (fst ?r)" "\<not> isl (fst ?s)"
    by code_simp+
  have h: "?r = (Inr (fst (projr (fst ?r)), fst (snd (projr (fst ?r))), snd (snd (projr (fst ?r)))),
                 snd ?r)"
    using i(1) by (cases ?r; cases "fst ?r") auto
  have g: "?s = (Inr (fst (projr (fst ?s)), fst (snd (projr (fst ?s))), snd (snd (projr (fst ?s)))),
                 snd ?s)"
    using i(2) by (cases ?s; cases "fst ?s") auto
  have q: "quiet ?o = None" "quiet ?q = Some True"
    "paths ?o = [''/proj/b/foo.py'', ''/proj/a/foo.py'']"
    "paths ?q = [''/proj/b/foo.py'', ''/proj/a/foo.py'']"
    by code_simp+
  have s: "sort [''/proj/b/foo.py'', ''/proj/a/foo.py''] = [''/proj/a/foo.py'', ''/proj/b/foo.py'']"
    by code_simp
  have f: "find (\<lambda>p. path_basename posix_env p (path_extname posix_env p) = ''foo'')
             (rev [''/proj/a/foo.py'', ''/proj/b/foo.py'']) = Some ''/proj/b/foo.py''"
    "find (\<lambda>p. path_basename posix_env p (path_extname posix_env p) = ''foo'')
             (rev [''/proj/b/foo.py'', ''/proj/a/foo.py'']) = Some ''/proj/a/foo.py''"
    by code_simp+
  show ?thesis
    using later_record_overwrites [OF h, of "''foo''"] later_record_overwrites [OF g, of "''foo''"]
    by (simp only: q s f option.simps if_False if_True simp_thms)
qed

text \<open>
  The claim as stated fails: \<open>/proj/a/foo.py\<close> and \<open>/proj/b/foo.py\<close> have the
  logical name \<open>foo\<close>, both are compiled, the request succeeds, and the one record
  under \<open>foo\<close> carries the source of the second.
\<close>

theorem collision_overwrites_silently:
  "contract_name posix_env ''/proj/a/foo.py'' = ''foo'' \<and>
   contract_name posix_env ''/proj/b/foo.py'' = ''foo'' \<and>
   \<not> isl (fst (compileAll posix_env (request [''/proj/a/foo.py'', ''/proj/b/foo.py'']) world0)) \<and>
   map_option source
     (fst (projr (fst (compileAll posix_env
                         (request [''/proj/a/foo.py'', ''/proj/b/foo.py'']) world0))) ''foo'')
     = Some ''F'' \<and>
   filter (\<lambda>e. case e of Spawn cmd args \<Rightarrow> True | _ \<Rightarrow> False)
     (trace (snd (compileAll posix_env (request [''/proj/a/foo.py'', ''/proj/b/foo.py'']) world0))) =
     [Spawn ''docker'' (spawn_args posix_env ''/proj/a/foo.py'' None (request [])),
      Spawn ''docker'' (spawn_args posix_env ''/proj/b/foo.py'' None (request []))]"
  by code_simp

subsection \<open>The first failure\<close>

lemma compile_loop_append:
  "compile_loop E opts ep (xs @ ys) cs w =
     (case compile_loop E opts ep xs cs w of
        (Inl e, w1) \<Rightarrow> (Inl e, w1)
      | (Inr cs1, w1) \<Rightarrow> compile_loop E opts ep ys cs1 w1)"
  by (induction xs arbitrary: cs w) (simp_all split: prod.split sum.split)

text \<open>
  C4, as the code has it. Let the paths be compiled in the order \<open>pre\<close>, \<open>sp\<close>,
  \<open>rest\<close>, let the sources of \<open>pre\<close> compile, and let the process for \<open>sp\<close> end
  with a code other than 0. Then \<open>compileAll\<close> yields an error and no mapping. The error
  text is what was captured from stderr, verbatim, then a line break, then the line
  \<open>Compilation of sp failed. See above.\<close> with the source path exactly as passed in:
  the path follows the diagnostics. The world is the one the failing process left: nothing
  of \<open>rest\<close> was compiled, read or deleted.
\<close>

theorem first_failure_short_circuits:
  assumes "display E (paths opts) opts w = (pre @ sp # rest, w0)"
    and "compile_loop E opts (entry_point opts) pre [] w0 = (Inr cs, w1)"
    and "docker_compile E (spawn_args E sp (entry_point opts) opts)
           (fs (run_pending (launch E sp (entry_point opts) opts w1))) = (code, chunks, f)"
    and "code \<noteq> Some 0"
  shows "compileAll E opts w =
           (Inl (CompileError (concat chunks @ [CHR 0x0A] @
                   colors_red E (''Compilation of '' @ sp @ '' failed. See above.''))),
            (run_pending (launch E sp (entry_point opts) opts w1))\<lparr>fs := f\<rparr>)"
proof -
  let ?e = "CompileError (concat chunks @ [CHR 0x0A] @
              colors_red E (''Compilation of '' @ sp @ '' failed. See above.''))"
  let ?w = "(run_pending (launch E sp (entry_point opts) opts w1))\<lparr>fs := f\<rparr>"
  have x: "execSmartPy E sp (entry_point opts) opts w1 = (Inl ?e, ?w)"
    using assms(3,4) by (simp add: execSmartPy_def Let_def on_close_def foldl_append_concat)
  then have "compile_one E opts (entry_point opts) sp w1 = (Inl ?e, ?w)"
    by (simp add: compile_one_def)
  then have "compile_loop E opts (entry_point opts) (sp # rest) cs w1 = (Inl ?e, ?w)"
    by simp
  with assms(2)
  have "compile_loop E opts (entry_point opts) (pre @ sp # rest) [] w0 = (Inl ?e, ?w)"
    by (simp add: compile_loop_append)
  with assms(1) show ?thesis
    by (simp add: compileAll_def)
qed


theorem first_failure_short_circuits_witness:
  "compileAll posix_env
     (request [''/proj/contracts/bad.py'', ''/proj/contracts/x.py'']) world0 =
   (Inl (CompileError (''boom'' @ [CHR 0x0A] @
           ansi_red ''Compilation of /proj/contracts/bad.py failed. See above.'')),
    world0\<lparr>trace :=
      [Spawn ''docker''
         [''run'', ''-v'', ''/proj:/proj'', ''-w'', ''/proj'', ''--rm'', ''-i'',
          ''trufflesuite/smartpy-basic:0.0.1'', ''compile'', ''/proj/contracts/bad.py'',
          ''bad()'', ''/proj/build'']]\<rparr>)"
proof -
  let ?opts = "request [''/proj/contracts/bad.py'', ''/proj/contracts/x.py'']"
  have d: "display posix_env (paths ?opts) ?opts world0 =
             ([] @ ''/proj/contracts/bad.py'' # [''/proj/contracts/x.py''], world0)"
    by code_simp
  have l: "compile_loop posix_env ?opts (entry_point ?opts) [] [] world0 = (Inr [], world0)"
    by simp
  have c: "docker_compile posix_env
             (spawn_args posix_env ''/proj/contracts/bad.py'' (entry_point ?opts) ?opts)
             (fs (run_pending
                    (launch posix_env ''/proj/contracts/bad.py'' (entry_point ?opts) ?opts world0)))
           = (Some 1, [''bo'', ''om''], fs world0)"
    by code_simp
  have n: "Some (1::int) \<noteq> Some 0"
    by simp
  have w: "(run_pending
              (launch posix_env ''/proj/contracts/bad.py'' (entry_point ?opts) ?opts world0))
             \<lparr>fs := fs world0\<rparr> =
           world0\<lparr>trace :=
             [Spawn ''docker''
                [''run'', ''-v'', ''/proj:/proj'', ''-w'', ''/proj'', ''--rm'', ''-i'',
                 ''trufflesuite/smartpy-basic:0.0.1'', ''compile'', ''/proj/contracts/bad.py'',
                 ''bad()'', ''/proj/build'']]\<rparr>"
    by code_simp
  have red: "colors_red posix_env = ansi_red"
    by (simp add: posix_env_def)
  show ?thesis
    using first_failure_short_circuits [OF d l c n] w red by simp
qed

text \<open>
  The claim as stated fails: the error text starts with the diagnostics, not with the
  source path.
\<close>

theorem path_follows_diagnostics:
  "projl (fst (compileAll posix_env
                 (request [''/proj/contracts/bad.py'', ''/proj/contracts/x.py'']) world0)) =
     CompileError (''boom'' @ [CHR 0x0A] @
       ansi_red ''Compilation of /proj/contracts/bad.py failed. See above.'') \<and>
   isl (fst (compileAll posix_env
               (request [''/proj/contracts/bad.py'', ''/proj/contracts/x.py'']) world0)) \<and>
   \<not> prefix ''/proj/contracts/bad.py''
       (''boom'' @ [CHR 0x0A] @
          ansi_red ''Compilation of /proj/contracts/bad.py failed. See above.'')"
  by code_simp

subsection \<open>The version recorded and the image run\<close>

lemma aggregate_in_set: "aggregate cs k = Some d \<Longrightarrow> d \<in> set cs"
  by (auto simp: aggregate_find dest: find_in_set)

lemma compileAll_compilerId:
  assumes "compileAll E opts w = (Inr (result, ps, c), w')" and "result k = Some d"
  shows "compilerId d = compiler"
proof -
  from compileAll_result [OF assms(1)] obtain cs where
    cs: "result = aggregate cs"
      "list_all (\<lambda>c. compilerId c = compiler \<and>
                     contractName c = contract_name E (sourcePath c)) cs"
    by blast
  from cs(1) assms(2) have "d \<in> set cs"
    by (simp add: aggregate_in_set)
  with cs(2) show ?thesis
    by (simp add: list_all_iff)
qed

lemma compileSmartPy_compilerId:
  assumes "fst (compileSmartPy E opts w) = Inr (result, ps, c)" and "result k = Some d"
  shows "compilerId d = compiler"
proof (cases "filter (\<lambda>p. minimatch E p SMARTPY_PATTERN) (paths opts) = []")
  case True
  with assms show ?thesis
    by (auto simp: compileSmartPy_def)
next
  case False
  let ?o = "opts\<lparr>paths := filter (\<lambda>p. minimatch E p SMARTPY_PATTERN) (paths opts)\<rparr>"
  obtain r1 w1 where c: "checkSmartPy E w = (r1, w1)"
    by (cases "checkSmartPy E w")
  show ?thesis
  proof (cases r1)
    case (Inl e)
    with False c assms show ?thesis
      by (simp add: compileSmartPy_def)
  next
    case (Inr u)
    with False c assms(1) have "fst (compileAll E ?o w1) = Inr (result, ps, c)"
      by (simp add: compileSmartPy_def)
    then have "compileAll E ?o w1 = (Inr (result, ps, c), snd (compileAll E ?o w1))"
      by (cases "compileAll E ?o w1") simp
    from compileAll_compilerId [OF this assms(2)] show ?thesis .
  qed
qed

text \<open>
  C10. Every event by which \<open>compileSmartPy\<close> starts a process starts docker on the
  image \<open>trufflesuite/smartpy-basic:0.0.1\<close>: the preflight check is that one command
  line, and every call of \<open>execSmartPy\<close> ends its trace with the \<open>docker\<close> process
  whose image argument is that tag. Every record of a successful result carries the
  constant compiler identity, with the version \<open>trufflesuite/smartpy-basic:0.0.2\<close>,
  which is not the tag that was run.
\<close>

theorem recorded_version_differs_from_image:
  "extends (on_image ''trufflesuite/smartpy-basic:0.0.1'') w (snd (compileSmartPy E opts w)) \<and>
   snd (checkSmartPy E w) =
     emit (Exec ''docker run --rm -i trufflesuite/smartpy-basic:0.0.1 --help'') w \<and>
   last (trace (snd (execSmartPy E sp ep opts w))) = Spawn ''docker'' (spawn_args E sp ep opts) \<and>
   spawn_args E sp ep opts ! 7 = ''trufflesuite/smartpy-basic:0.0.1'' \<and>
   (\<forall>result ps c k d.
      fst (compileSmartPy E opts w) = Inr (result, ps, c) \<longrightarrow> result k = Some d \<longrightarrow>
      compilerId d = \<lparr>name = ''smartpy'', version = ''trufflesuite/smartpy-basic:0.0.2''\<rparr>) \<and>
   version compiler \<noteq> ''trufflesuite/smartpy-basic:0.0.1''"
proof -
  have "compilerId d = \<lparr>name = ''smartpy'', version = ''trufflesuite/smartpy-basic:0.0.2''\<rparr>"
    if "fst (compileSmartPy E opts w) = Inr (result, ps, c)" and "result k = Some d"
    for result ps c k d
    using compileSmartPy_compilerId [OF that] by (simp add: compiler_def)
  moreover have "last (trace (snd (execSmartPy E sp ep opts w))) =
                   Spawn ''docker'' (spawn_args E sp ep opts)"
    by (simp add: trace_execSmartPy trace_launch)
  moreover have "spawn_args E sp ep opts ! 7 = ''trufflesuite/smartpy-basic:0.0.1''"
    by (simp add: spawn_args_def Let_def)
  moreover have "version compiler \<noteq> ''trufflesuite/smartpy-basic:0.0.1''"
    by (simp add: compiler_def)
  ultimately show ?thesis
    using compileSmartPy_extends [of w E opts] snd_checkSmartPy [of E w]
    by (simp add: help_command_def)
qed

theorem recorded_version_differs_from_image_witness:
  "map_option compilerId
     (fst (projr (fst (compileSmartPy posix_env (request [''/proj/contracts/x.py'']) world0))) ''x'')
     = Some \<lparr>name = ''smartpy'', version = ''trufflesuite/smartpy-basic:0.0.2''\<rparr> \<and>
   filter (\<lambda>e. case e of Spawn cmd args \<Rightarrow> True | Exec cmd \<Rightarrow> True | _ \<Rightarrow> False)
     (trace (snd (compileSmartPy posix_env (request [''/proj/contracts/x.py'']) world0))) =
     [Exec ''docker run --rm -i trufflesuite/smartpy-basic:0.0.1 --help'',
      Spawn ''docker''
        [''run'', ''-v'', ''/proj:/proj'', ''-w'', ''/proj'', ''--rm'', ''-i'',
         ''trufflesuite/smartpy-basic:0.0.1'', ''compile'', ''/proj/contracts/x.py'', ''x()'',
         ''/proj/build'']] \<and>
   extends (on_image ''trufflesuite/smartpy-basic:0.0.1'') world0
     (snd (compileSmartPy posix_env (request [''/proj/contracts/x.py'']) world0))"
proof -
  let ?r = "compileSmartPy posix_env (request [''/proj/contracts/x.py'']) world0"
  have i: "\<not> isl (fst ?r)"
    by code_simp
  have h: "fst ?r = Inr (fst (projr (fst ?r)), fst (snd (projr (fst ?r))), snd (snd (projr (fst ?r))))"
    using i by (cases "fst ?r") auto
  have x: "map_option sourcePath (fst (projr (fst ?r)) ''x'') = Some ''/proj/contracts/x.py''"
    by code_simp
  then obtain d where d: "fst (projr (fst ?r)) ''x'' = Some d"
    by auto
  have t: "filter (\<lambda>e. case e of Spawn cmd args \<Rightarrow> True | Exec cmd \<Rightarrow> True | _ \<Rightarrow> False)
             (trace (snd ?r)) =
           [Exec ''docker run --rm -i trufflesuite/smartpy-basic:0.0.1 --help'',
            Spawn ''docker''
              [''run'', ''-v'', ''/proj:/proj'', ''-w'', ''/proj'', ''--rm'', ''-i'',
               ''trufflesuite/smartpy-basic:0.0.1'', ''compile'', ''/proj/contracts/x.py'', ''x()'',
               ''/proj/build'']]"
    by code_simp
  from recorded_version_differs_from_image
         [of world0 posix_env "request [''/proj/contracts/x.py'']" "''/proj/contracts/x.py''" None]
  have "extends (on_image ''trufflesuite/smartpy-basic:0.0.1'') world0 (snd ?r)"
    and "\<And>result ps c k d.
           fst ?r = Inr (result, ps, c) \<Longrightarrow> result k = Some d \<Longrightarrow>
           compilerId d = \<lparr>name = ''smartpy'', version = ''trufflesuite/smartpy-basic:0.0.2''\<rparr>"
    by blast+
  from this(1) this(2) [OF h d] d t show ?thesis
    by simp
qed

subsection \<open>A pass over a directory of regular files\<close>

lemma discard_file:
  assumes "map_of (fs w) p = Some (File c)"
  shows "discard p vars w = (Inr vars, (emit (Unlink p) w)\<lparr>fs := remove_path p (fs w)\<rparr>)"
  using assms by (simp add: discard_def unlinkSync_def)

lemma capture_michelson_file:
  assumes "map_of (fs w) p = Some (File c)" and "JSON_parse E c = Some j"
  shows "capture_michelson E p vars w =
           (Inr (Some (JSON_stringify E j), snd vars),
            (emit (Unlink p) (emit (ReadFile p) w))\<lparr>fs := remove_path p (fs w)\<rparr>)"
  using assms by (simp add: capture_michelson_def readFileSync_def unlinkSync_def emit_def)

lemma capture_storage_file:
  assumes "map_of (fs w) p = Some (File c)"
  shows "capture_storage p vars w =
           (Inr (fst vars, Some c),
            (emit (Unlink p) (emit (ReadFile p) w))\<lparr>fs := remove_path p (fs w)\<rparr>)"
  using assms by (simp add: capture_storage_def readFileSync_def unlinkSync_def emit_def)

lemma classify_storage: "classify ''contractStorage.tz'' = RawOutput"
  by code_simp

lemma map_of_None_subset: "set f' \<subseteq> set f \<Longrightarrow> map_of f q = None \<Longrightarrow> map_of f' q = None"
  by (auto simp: map_of_eq_None_iff)

lemma set_remove_path: "set (remove_path p f) \<subseteq> set f"
  by (auto simp: remove_path_def)

lemma reconcile_file_step:
  assumes reg: "classify x \<noteq> Unrecognized \<Longrightarrow> \<exists>c. map_of (fs w) (dir @ ''/'' @ x) = Some (File c)"
    and only: "classify x = CompiledProgram \<Longrightarrow> x = prog"
    and prog: "x = prog \<Longrightarrow>
                 map_of (fs w) (dir @ ''/'' @ prog) = Some (File raw) \<and> JSON_parse E raw = Some j"
    and stor: "x = ''contractStorage.tz'' \<Longrightarrow>
                 map_of (fs w) (dir @ ''/'' @ ''contractStorage.tz'') = Some (File st)"
  shows "\<exists>w1. reconcile_file E dir x vars w =
           (Inr (if x = prog \<and> classify x = CompiledProgram then Some (JSON_stringify E j)
                 else fst vars,
                 if x = ''contractStorage.tz'' then Some st else snd vars), w1) \<and>
         (if classify x = Unrecognized then fs w1 = fs w
          else fs w1 = remove_path (dir @ ''/'' @ x) (fs w))"
proof (cases "classify x")
  case SourceEcho
  with reg obtain c where "map_of (fs w) (dir @ ''/'' @ x) = Some (File c)"
    by auto
  from discard_file [OF this, of vars] SourceEcho classify_storage show ?thesis
    by (auto simp: reconcile_file_classify)
next
  case CompiledProgram
  with only prog have "map_of (fs w) (dir @ ''/'' @ x) = Some (File raw)" "JSON_parse E raw = Some j"
    and x: "x = prog"
    by auto
  from capture_michelson_file [OF this(1,2), of vars] CompiledProgram x classify_storage
  show ?thesis
    by (auto simp: reconcile_file_classify)
next
  case RawOutput
  show ?thesis
  proof (cases "x = ''contractStorage.tz''")
    case True
    with stor have "map_of (fs w) (dir @ ''/'' @ x) = Some (File st)"
      by simp
    from capture_storage_file [OF this, of vars] RawOutput True show ?thesis
      by (auto simp: reconcile_file_classify)
  next
    case False
    from reg RawOutput obtain c where "map_of (fs w) (dir @ ''/'' @ x) = Some (File c)"
      by auto
    from discard_file [OF this, of vars] RawOutput False show ?thesis
      by (auto simp: reconcile_file_classify)
  qed
next
  case Unrecognized
  with classify_storage show ?thesis
    by (auto simp: reconcile_file_classify)
qed


lemma reconcile_captures:
  assumes d: "distinct files"
    and reg: "\<And>g. g \<in> set files \<Longrightarrow> classify g \<noteq> Unrecognized \<Longrightarrow>
                 \<exists>c. map_of (fs w) (dir @ ''/'' @ g) = Some (File c)"
    and only: "\<And>g. g \<in> set files \<Longrightarrow> classify g = CompiledProgram \<Longrightarrow> g = prog"
    and prog: "prog \<in> set files \<Longrightarrow>
                 map_of (fs w) (dir @ ''/'' @ prog) = Some (File raw) \<and> JSON_parse E raw = Some j"
    and stor: "''contractStorage.tz'' \<in> set files \<Longrightarrow>
                 map_of (fs w) (dir @ ''/'' @ ''contractStorage.tz'') = Some (File st)"
  shows "\<exists>w'. reconcile E dir files vars w =
           (Inr (if prog \<in> set files \<and> classify prog = CompiledProgram
                 then Some (JSON_stringify E j) else fst vars,
                 if ''contractStorage.tz'' \<in> set files then Some st else snd vars), w') \<and>
         set (fs w') \<subseteq> set (fs w) \<and>
         (\<forall>g\<in>set files. classify g \<noteq> Unrecognized \<longrightarrow> map_of (fs w') (dir @ ''/'' @ g) = None)"
  using assms
proof (induction files arbitrary: vars w)
  case Nil
  then show ?case by simp
next
  case (Cons x files)
  let ?p = "dir @ ''/'' @ x"
  let ?vars1 = "(if x = prog \<and> classify x = CompiledProgram then Some (JSON_stringify E j)
                 else fst vars,
                 if x = ''contractStorage.tz'' then Some st else snd vars)"
  from Cons.prems(1) have nx: "x \<notin> set files" and df: "distinct files"
    by simp_all
  have "\<exists>w1. reconcile_file E dir x vars w = (Inr ?vars1, w1) \<and>
          (if classify x = Unrecognized then fs w1 = fs w
           else fs w1 = remove_path ?p (fs w))"
  proof (rule reconcile_file_step)
    show "\<exists>c. map_of (fs w) (dir @ ''/'' @ x) = Some (File c)" if "classify x \<noteq> Unrecognized"
      using Cons.prems(2) [of x] that by simp
    show "x = prog" if "classify x = CompiledProgram"
      using Cons.prems(3) [of x] that by simp
    show "map_of (fs w) (dir @ ''/'' @ prog) = Some (File raw) \<and> JSON_parse E raw = Some j"
      if "x = prog"
      using Cons.prems(4) that by simp
    show "map_of (fs w) (dir @ ''/'' @ ''contractStorage.tz'') = Some (File st)"
      if "x = ''contractStorage.tz''"
      using Cons.prems(5) that by simp
  qed
  then obtain w1 where
    step: "reconcile_file E dir x vars w = (Inr ?vars1, w1)" and
    fs1: "if classify x = Unrecognized then fs w1 = fs w else fs w1 = remove_path ?p (fs w)"
    by blast
  have keep: "map_of (fs w1) (dir @ ''/'' @ g) = map_of (fs w) (dir @ ''/'' @ g)"
    if "g \<in> set files" for g
  proof -
    from that nx have "g \<noteq> x" by auto
    then have "dir @ ''/'' @ g \<noteq> ?p" by simp
    with fs1 show ?thesis
      by (auto simp: map_of_remove_path split: if_splits)
  qed
  have sub1: "set (fs w1) \<subseteq> set (fs w)"
    using fs1 set_remove_path [of ?p "fs w"] by (auto split: if_splits)
  have gone: "map_of (fs w1) ?p = None" if "classify x \<noteq> Unrecognized"
    using fs1 that by (simp add: map_of_remove_path)
  have "\<exists>w'. reconcile E dir files ?vars1 w1 =
           (Inr (if prog \<in> set files \<and> classify prog = CompiledProgram
                 then Some (JSON_stringify E j) else fst ?vars1,
                 if ''contractStorage.tz'' \<in> set files then Some st else snd ?vars1), w') \<and>
         set (fs w') \<subseteq> set (fs w1) \<and>
         (\<forall>g\<in>set files. classify g \<noteq> Unrecognized \<longrightarrow> map_of (fs w') (dir @ ''/'' @ g) = None)"
  proof (rule Cons.IH [OF df])
    show "\<exists>c. map_of (fs w1) (dir @ ''/'' @ g) = Some (File c)"
      if "g \<in> set files" "classify g \<noteq> Unrecognized" for g
      using Cons.prems(2) [of g] that keep [of g] by simp
    show "g = prog" if "g \<in> set files" "classify g = CompiledProgram" for g
      using Cons.prems(3) [of g] that by simp
    show "map_of (fs w1) (dir @ ''/'' @ prog) = Some (File raw) \<and> JSON_parse E raw = Some j"
      if "prog \<in> set files"
      using Cons.prems(4) that keep [of prog] by simp
    show "map_of (fs w1) (dir @ ''/'' @ ''contractStorage.tz'') = Some (File st)"
      if "''contractStorage.tz'' \<in> set files"
      using Cons.prems(5) that keep [of "''contractStorage.tz''"] by simp
  qed
  then obtain w' where
    run: "reconcile E dir files ?vars1 w1 =
           (Inr (if prog \<in> set files \<and> classify prog = CompiledProgram
                 then Some (JSON_stringify E j) else fst ?vars1,
                 if ''contractStorage.tz'' \<in> set files then Some st else snd ?vars1), w')" and
    sub: "set (fs w') \<subseteq> set (fs w1)" and
    none: "\<forall>g\<in>set files. classify g \<noteq> Unrecognized \<longrightarrow> map_of (fs w') (dir @ ''/'' @ g) = None"
    by blast
  have v: "reconcile E dir (x # files) vars w =
           (Inr (if prog \<in> set (x # files) \<and> classify prog = CompiledProgram
                 then Some (JSON_stringify E j) else fst vars,
                 if ''contractStorage.tz'' \<in> set (x # files) then Some st else snd vars), w')"
  proof -
    have e1: "(if prog \<in> set files \<and> classify prog = CompiledProgram
               then Some (JSON_stringify E j) else fst ?vars1) =
              (if prog \<in> set (x # files) \<and> classify prog = CompiledProgram
               then Some (JSON_stringify E j) else fst vars)"
      by auto
    have e2: "(if ''contractStorage.tz'' \<in> set files then Some st else snd ?vars1) =
              (if ''contractStorage.tz'' \<in> set (x # files) then Some st else snd vars)"
      by auto
    show ?thesis
      by (simp only: reconcile.simps step prod.case sum.case run e1 e2)
  qed
  have s: "set (fs w') \<subseteq> set (fs w)"
    using sub sub1 by blast
  have n: "\<forall>g\<in>set (x # files). classify g \<noteq> Unrecognized \<longrightarrow>
             map_of (fs w') (dir @ ''/'' @ g) = None"
    using none gone map_of_None_subset [OF sub, of ?p] by auto
  from v s n show ?case by blast
qed

lemma child_name_Some:
  assumes "child_name d p = Some f"
  shows "p = d @ ''/'' @ f"
proof -
  from assms have t: "take (length d + 1) p = d @ ''/''" and f: "f = drop (length d + 1) p"
    by (simp_all add: child_name_def Let_def split: if_splits)
  have "p = take (length d + 1) p @ drop (length d + 1) p"
    by (simp only: append_take_drop_id)
  with t f show ?thesis
    by simp
qed

lemma in_entries:
  assumes "f \<in> set (entries d F)"
  shows "\<exists>n. (d @ ''/'' @ f, n) \<in> set F"
proof -
  from assms obtain e where e: "e \<in> set F" "child_name d (fst e) = Some f"
    by (auto simp: entries_def map_filter_def)
  from child_name_Some [OF e(2)] e(1) have "(d @ ''/'' @ f, snd e) \<in> set F"
    by (metis prod.collapse)
  then show ?thesis ..
qed

lemma entries_subset:
  assumes "set F' \<subseteq> set F"
  shows "set (entries d F') \<subseteq> set (entries d F)"
  using assms by (auto simp: entries_def map_filter_def)

lemma distinct_entries: "distinct (entries d F)"
  by (simp add: entries_def)


text \<open>
  C3. Let the compiler process for \<open>sp\<close> succeed and leave the world \<open>w1\<close>, in which
  the source path holds the text \<open>src\<close>, the build directory exists, every entry of it
  that belongs to a recognized class is a regular file, \<open>prog\<close> is its one entry of the
  JSON program class and holds a text that parses to \<open>j\<close>, and
  \<open>contractStorage.tz\<close> is an entry and holds \<open>st\<close>. Then the pass of the loop
  yields the record with the logical name, the source path, the text read from the source
  path, \<open>JSON.stringify\<close> of \<open>j\<close> as the compiled program and \<open>st\<close> as the initial
  storage; and afterwards no entry of the build directory belongs to a recognized class.
\<close>

theorem reconciled_record:
  assumes run: "execSmartPy E sp ep opts w = (Inr cn, w1)"
    and src: "map_of (fs w1) sp = Some (File src)"
    and dir: "map_of (fs w1) (contracts_build_directory opts) = Some Dir"
    and reg: "\<forall>g\<in>set (entries (contracts_build_directory opts) (fs w1)).
                classify g \<noteq> Unrecognized \<longrightarrow>
                (\<exists>c. map_of (fs w1) (contracts_build_directory opts @ ''/'' @ g) = Some (File c))"
    and prog: "prog \<in> set (entries (contracts_build_directory opts) (fs w1))"
      "classify prog = CompiledProgram"
      "map_of (fs w1) (contracts_build_directory opts @ ''/'' @ prog) = Some (File raw)"
      "JSON_parse E raw = Some j"
    and only: "\<forall>g\<in>set (entries (contracts_build_directory opts) (fs w1)).
                 classify g = CompiledProgram \<longrightarrow> g = prog"
    and stor: "''contractStorage.tz'' \<in> set (entries (contracts_build_directory opts) (fs w1))"
      "map_of (fs w1) (contracts_build_directory opts @ ''/'' @ ''contractStorage.tz'')
         = Some (File st)"
  shows "fst (compile_one E opts ep sp w) =
           Inr \<lparr>contractName = cn, abi = [], initialStorage = Some st, sourcePath = sp,
                source = src, michelson = Some (JSON_stringify E j), compilerId = compiler\<rparr> \<and>
         (\<forall>g\<in>set (entries (contracts_build_directory opts) (fs (snd (compile_one E opts ep sp w)))).
            classify g = Unrecognized)"
proof -
  let ?B = "contracts_build_directory opts"
  let ?w2 = "emit (ReadFile sp) w1"
  let ?L = "entries ?B (fs w1)"
  let ?v = "(None, None) :: vars"
  have fs2: "fs ?w2 = fs w1"
    by (simp add: emit_def)
  have rd: "readFileSync sp w1 = (Inr src, ?w2)"
    using src by (simp add: readFileSync_def)
  have ls: "readdirSync ?B ?w2 = (Inr ?L, ?w2)"
    using dir by (simp add: readdirSync_def fs2)
  have "\<exists>w'. reconcile E ?B ?L ?v ?w2 =
           (Inr (if prog \<in> set ?L \<and> classify prog = CompiledProgram
                 then Some (JSON_stringify E j) else fst ?v,
                 if ''contractStorage.tz'' \<in> set ?L then Some st else snd ?v), w') \<and>
         set (fs w') \<subseteq> set (fs ?w2) \<and>
         (\<forall>g\<in>set ?L. classify g \<noteq> Unrecognized \<longrightarrow> map_of (fs w') (?B @ ''/'' @ g) = None)"
  proof (rule reconcile_captures)
    show "distinct ?L"
      by (rule distinct_entries)
    show "\<exists>c. map_of (fs ?w2) (?B @ ''/'' @ g) = Some (File c)"
      if "g \<in> set ?L" "classify g \<noteq> Unrecognized" for g
      using reg that by (simp add: fs2)
    show "g = prog" if "g \<in> set ?L" "classify g = CompiledProgram" for g
      using only that by simp
    show "map_of (fs ?w2) (?B @ ''/'' @ prog) = Some (File raw) \<and> JSON_parse E raw = Some j"
      using prog(3,4) by (simp add: fs2)
    show "map_of (fs ?w2) (?B @ ''/'' @ ''contractStorage.tz'') = Some (File st)"
      using stor(2) by (simp add: fs2)
  qed
  then obtain w' where
    rec: "reconcile E ?B ?L (None, None) ?w2 = (Inr (Some (JSON_stringify E j), Some st), w')" and
    sub: "set (fs w') \<subseteq> set (fs w1)" and
    none: "\<forall>g\<in>set ?L. classify g \<noteq> Unrecognized \<longrightarrow> map_of (fs w') (?B @ ''/'' @ g) = None"
    using prog(1,2) stor(1) by (auto simp: fs2)
  have one: "compile_one E opts ep sp w =
               (Inr \<lparr>contractName = cn, abi = [], initialStorage = Some st, sourcePath = sp,
                     source = src, michelson = Some (JSON_stringify E j), compilerId = compiler\<rparr>,
                w')"
    by (simp add: compile_one_def run rd ls rec)
  have "classify g = Unrecognized" if g: "g \<in> set (entries ?B (fs w'))" for g
  proof (rule ccontr)
    assume c: "classify g \<noteq> Unrecognized"
    from g entries_subset [OF sub, of ?B] have "g \<in> set ?L"
      by auto
    with none c have "map_of (fs w') (?B @ ''/'' @ g) = None"
      by simp
    moreover from in_entries [OF g] obtain n where "(?B @ ''/'' @ g, n) \<in> set (fs w')"
      by blast
    ultimately show False
      by (auto simp: map_of_eq_None_iff intro: rev_image_eqI)
  qed
  with one show ?thesis
    by simp
qed


theorem reconciled_record_witness:
  "fst (compile_one posix_env (request []) None ''/proj/contracts/x.py'' world0) =
     Inr \<lparr>contractName = ''x'', abi = [], initialStorage = Some ''Unit'',
          sourcePath = ''/proj/contracts/x.py'', source = ''X'', michelson = Some ''[]'',
          compilerId = compiler\<rparr> \<and>
   entries ''/proj/build''
     (fs (snd (compile_one posix_env (request []) None ''/proj/contracts/x.py'' world0)))
     = [''notes.txt''] \<and>
   list_all (\<lambda>g. classify g = Unrecognized)
     (entries ''/proj/build''
        (fs (snd (compile_one posix_env (request []) None ''/proj/contracts/x.py'' world0))))"
proof -
  let ?x = "execSmartPy posix_env ''/proj/contracts/x.py'' None (request []) world0"
  let ?B = "contracts_build_directory (request [])"
  have "fst ?x = Inr ''x''"
    by code_simp
  then have run: "?x = (Inr ''x'', snd ?x)"
    by (cases ?x) simp
  have src: "map_of (fs (snd ?x)) ''/proj/contracts/x.py'' = Some (File ''X'')"
    by code_simp
  have dir: "map_of (fs (snd ?x)) ?B = Some Dir"
    by code_simp
  have la: "list_all (\<lambda>g. classify g \<noteq> Unrecognized \<longrightarrow>
                     (case map_of (fs (snd ?x)) (?B @ ''/'' @ g) of
                        Some (File c) \<Rightarrow> True | _ \<Rightarrow> False))
          (entries ?B (fs (snd ?x)))"
    by code_simp
  have reg: "\<forall>g\<in>set (entries ?B (fs (snd ?x))).
               classify g \<noteq> Unrecognized \<longrightarrow>
               (\<exists>c. map_of (fs (snd ?x)) (?B @ ''/'' @ g) = Some (File c))"
  proof (intro ballI impI)
    fix g
    assume "g \<in> set (entries ?B (fs (snd ?x)))" and "classify g \<noteq> Unrecognized"
    with la have "case map_of (fs (snd ?x)) (?B @ ''/'' @ g) of
                    Some (File c) \<Rightarrow> True | _ \<Rightarrow> False"
      by (simp add: list_all_iff)
    then show "\<exists>c. map_of (fs (snd ?x)) (?B @ ''/'' @ g) = Some (File c)"
      by (simp split: option.splits node.splits)
  qed
  have prog: "''c.tz.json'' \<in> set (entries ?B (fs (snd ?x)))"
    "classify ''c.tz.json'' = CompiledProgram"
    "map_of (fs (snd ?x)) (?B @ ''/'' @ ''c.tz.json'') = Some (File ''[ ]'')"
    "JSON_parse posix_env ''[ ]'' = Some ''[]''"
    by code_simp+
  have "list_all (\<lambda>g. classify g = CompiledProgram \<longrightarrow> g = ''c.tz.json'')
          (entries ?B (fs (snd ?x)))"
    by code_simp
  then have only: "\<forall>g\<in>set (entries ?B (fs (snd ?x))).
                     classify g = CompiledProgram \<longrightarrow> g = ''c.tz.json''"
    by (simp add: list_all_iff)
  have stor: "''contractStorage.tz'' \<in> set (entries ?B (fs (snd ?x)))"
    "map_of (fs (snd ?x)) (?B @ ''/'' @ ''contractStorage.tz'') = Some (File ''Unit'')"
    by code_simp+
  have e: "entries ''/proj/build''
             (fs (snd (compile_one posix_env (request []) None ''/proj/contracts/x.py'' world0)))
           = [''notes.txt'']"
    by code_simp
  have s: "JSON_stringify posix_env ''[]'' = ''[]''" and b: "?B = ''/proj/build''"
    by code_simp+
  show ?thesis
    using reconciled_record [OF run src dir reg prog only stor] e s b
    by (simp add: list_all_iff)
qed

subsection \<open>Source echoes in a pass\<close>

lemma fs_unlinkSync_subset: "set (fs (snd (unlinkSync p w))) \<subseteq> set (fs w)"
  by (auto simp: unlinkSync_def emit_def remove_path_def split: option.split node.split)

lemma discard_fs_subset: "set (fs (snd (discard p vars w))) \<subseteq> set (fs w)"
  by (simp add: discard_snd fs_unlinkSync_subset)

lemma capture_storage_fs_subset: "set (fs (snd (capture_storage p vars w))) \<subseteq> set (fs w)"
  using capture_storage_cases [of p vars w] fs_unlinkSync_subset [of p "snd (readFileSync p w)"]
  by (auto simp: fs_readFileSync)

lemma capture_michelson_fs_subset: "set (fs (snd (capture_michelson E p vars w))) \<subseteq> set (fs w)"
  using capture_michelson_cases [of E p vars w] fs_unlinkSync_subset [of p "snd (readFileSync p w)"]
  by (auto simp: fs_readFileSync)

lemma reconcile_file_fs_subset: "set (fs (snd (reconcile_file E dir x vars w))) \<subseteq> set (fs w)"
  by (cases "classify x")
     (simp_all add: reconcile_file_classify discard_fs_subset capture_storage_fs_subset
        capture_michelson_fs_subset)

lemma reconcile_fs_subset: "set (fs (snd (reconcile E dir files vars w))) \<subseteq> set (fs w)"
proof (induction files arbitrary: vars w)
  case Nil
  then show ?case by simp
next
  case (Cons x files)
  have step: "set (fs (snd (reconcile_file E dir x vars w))) \<subseteq> set (fs w)"
    by (rule reconcile_file_fs_subset)
  show ?case
  proof (cases "reconcile_file E dir x vars w")
    case (Pair r w1)
    show ?thesis
    proof (cases r)
      case (Inl e)
      with Pair step show ?thesis by simp
    next
      case (Inr vars1)
      with Pair step Cons.IH [of vars1 w1] show ?thesis by auto
    qed
  qed
qed

lemma reconcile_extends_steps:
  assumes "\<And>x vars w. x \<in> set files \<Longrightarrow> extends P w (snd (reconcile_file E dir x vars w))"
  shows "extends P w (snd (reconcile E dir files vars w))"
  using assms
proof (induction files arbitrary: vars w)
  case Nil
  then show ?case by (simp add: extends_refl)
next
  case (Cons x files)
  have step: "extends P w (snd (reconcile_file E dir x vars w))"
    by (rule Cons.prems) simp
  show ?case
  proof (cases "reconcile_file E dir x vars w")
    case (Pair r w1)
    show ?thesis
    proof (cases r)
      case (Inl e)
      with Pair step show ?thesis by simp
    next
      case (Inr vars1)
      have "extends P w1 (snd (reconcile E dir files vars1 w1))"
        by (rule Cons.IH) (rule Cons.prems, simp)
      with Pair Inr step show ?thesis by (auto intro: extends_trans)
    qed
  qed
qed

lemma source_echo_step:
  assumes "str_includes f ''.py''"
  shows "reconcile_file E dir f vars w = discard (dir @ ''/'' @ f) vars w"
  using assms by (simp add: reconcile_file_def Let_def)

lemma source_echo_never_read:
  assumes "str_includes f ''.py''"
  shows "extends (\<lambda>e. e \<noteq> ReadFile (dir @ ''/'' @ f)) w (snd (reconcile E dir files vars w))"
proof (rule reconcile_extends_steps)
  fix x vars w
  show "extends (\<lambda>e. e \<noteq> ReadFile (dir @ ''/'' @ f)) w (snd (reconcile_file E dir x vars w))"
  proof (cases "x = f")
    case True
    with assms show ?thesis
      by (simp add: source_echo_step discard_extends)
  next
    case False
    then show ?thesis
      by (intro reconcile_file_extends) simp
  qed
qed

lemma source_echo_deleted:
  assumes "reconcile E dir files vars w = (Inr vars', w')"
    and "f \<in> set files" and "str_includes f ''.py''"
  shows "map_of (fs w') (dir @ ''/'' @ f) = None \<and>
         Unlink (dir @ ''/'' @ f) \<in> set (drop (length (trace w)) (trace w'))"
  using assms(1,2)
proof (induction files arbitrary: vars w)
  case Nil
  then show ?case by simp
next
  case (Cons x files)
  let ?p = "dir @ ''/'' @ f"
  obtain r w1 where step': "reconcile_file E dir x vars w = (r, w1)"
    by (cases "reconcile_file E dir x vars w")
  with Cons.prems(1) obtain vars1 where r: "r = Inr vars1"
    by (cases r) simp_all
  from step' r have step: "reconcile_file E dir x vars w = (Inr vars1, w1)"
    by simp
  with Cons.prems(1) have rest: "reconcile E dir files vars1 w1 = (Inr vars', w')"
    by simp
  have e1: "extends (\<lambda>e. True) w w1"
    using reconcile_file_extends [of x "\<lambda>e. True" dir w E vars] step by simp
  have e2: "extends (\<lambda>e. True) w1 w'"
    using reconcile_extends [of files "\<lambda>e. True" dir w1 E vars1] rest by simp
  from e1 obtain t1 where t1: "trace w1 = trace w @ t1"
    by (auto simp: extends_iff)
  from e2 obtain t2 where t2: "trace w' = trace w1 @ t2"
    by (auto simp: extends_iff)
  have d: "drop (length (trace w)) (trace w') = t1 @ t2"
    and d1: "drop (length (trace w)) (trace w1) = t1"
    and d2: "drop (length (trace w1)) (trace w') = t2"
    by (simp_all add: t1 t2)
  have sub: "set (fs w') \<subseteq> set (fs w1)"
    using reconcile_fs_subset [of E dir files vars1 w1] rest by simp
  show ?case
  proof (cases "x = f")
    case True
    with step assms(3) have "discard ?p vars w = (Inr vars1, w1)"
      by (simp add: source_echo_step)
    then have u: "unlinkSync ?p w = (Inr (), w1)"
      by (auto simp: discard_def split: prod.splits sum.splits)
    then have n: "map_of (fs w1) ?p = None" and "trace w1 = trace w @ [Unlink ?p]"
      by (auto simp: unlinkSync_def emit_def map_of_remove_path
            split: option.splits node.splits)
    with t1 have "t1 = [Unlink ?p]"
      by simp
    with d map_of_None_subset [OF sub n] show ?thesis
      by simp
  next
    case False
    with Cons.prems(2) have "f \<in> set files"
      by simp
    from Cons.IH [OF rest this] d d2 show ?thesis
      by simp
  qed
qed

lemma reconcile_append:
  "reconcile E dir (xs @ ys) vars w =
     (case reconcile E dir xs vars w of
        (Inl e, w1) \<Rightarrow> (Inl e, w1)
      | (Inr vars1, w1) \<Rightarrow> reconcile E dir ys vars1 w1)"
  by (induction xs arbitrary: vars w) (simp_all split: prod.split sum.split)

text \<open>
  C9. The test is whether the name contains \<open>.py\<close>, whatever stands before and after
  it. Take a listing with an entry whose name contains \<open>.py\<close>, also one that ends in
  \<open>.tz.json\<close> or \<open>.tz\<close> as \<open>foo.py.tz.json\<close> does, and let the pass get as far
  as this entry and past it without an exception. Then, however the pass ends after that:
  the path of the entry is gone from the file system, the pass has unlinked it, the pass
  has not read it, and the step of the callback for it is the one that only deletes and
  hands back the two variables as it got them. (A pass that throws ends at the entry that
  made it throw; the entries it has not reached stay.)
\<close>

theorem source_echo_by_substring:
  assumes reach: "reconcile E dir (xs @ [pre @ ''.py'' @ post]) vars w = (Inr vars1, w1)"
    and pass: "reconcile E dir (xs @ (pre @ ''.py'' @ post) # ys) vars w = (r, w')"
  shows "map_of (fs w') (dir @ ''/'' @ pre @ ''.py'' @ post) = None \<and>
         Unlink (dir @ ''/'' @ pre @ ''.py'' @ post) \<in> set (drop (length (trace w)) (trace w')) \<and>
         ReadFile (dir @ ''/'' @ pre @ ''.py'' @ post)
           \<notin> set (drop (length (trace w)) (trace w')) \<and>
         reconcile_file E dir (pre @ ''.py'' @ post) v u =
           discard (dir @ ''/'' @ pre @ ''.py'' @ post) v u"
proof -
  let ?f = "pre @ ''.py'' @ post"
  let ?p = "dir @ ''/'' @ ?f"
  have inc: "str_includes ?f ''.py''"
    by (rule str_includes_middle)
  have "xs @ ?f # ys = (xs @ [?f]) @ ys"
    by simp
  with pass have "reconcile E dir ((xs @ [?f]) @ ys) vars w = (r, w')"
    by (simp only:)
  with reach have rest: "reconcile E dir ys vars1 w1 = (r, w')"
    by (simp only: reconcile_append prod.case sum.case)
  from source_echo_deleted [OF reach _ inc]
  have gone: "map_of (fs w1) ?p = None"
    and del: "Unlink ?p \<in> set (drop (length (trace w)) (trace w1))"
    by simp_all
  have "set (fs w') \<subseteq> set (fs w1)"
    using reconcile_fs_subset [of E dir ys vars1 w1] rest by simp
  from map_of_None_subset [OF this gone] have 1: "map_of (fs w') ?p = None" .
  have "extends (\<lambda>e. True) w w1"
    using reconcile_extends [of "xs @ [?f]" "\<lambda>e. True" dir w E vars] reach by simp
  then obtain t1 where t1: "trace w1 = trace w @ t1"
    by (auto simp: extends_iff)
  have "extends (\<lambda>e. True) w1 w'"
    using reconcile_extends [of ys "\<lambda>e. True" dir w1 E vars1] rest by simp
  then obtain t2 where t2: "trace w' = trace w1 @ t2"
    by (auto simp: extends_iff)
  from del t1 t2 have 2: "Unlink ?p \<in> set (drop (length (trace w)) (trace w'))"
    by simp
  from source_echo_never_read [OF inc, of dir w E "xs @ ?f # ys" vars] pass
  have "extends (\<lambda>e. e \<noteq> ReadFile ?p) w w'"
    by simp
  then have "list_all (\<lambda>e. e \<noteq> ReadFile ?p) (drop (length (trace w)) (trace w'))"
    by (simp add: extends_def)
  then have 3: "ReadFile ?p \<notin> set (drop (length (trace w)) (trace w'))"
    by (auto simp: list_all_iff)
  from 1 2 3 source_echo_step [OF inc, of E dir v u] show ?thesis
    by simp
qed

theorem source_echo_by_substring_witness:
  "entries ''/proj/build'' (fs world2) = [''foo.py.tz.json'', ''notes.txt'', ''zz.tz.json''] \<and>
   fst (reconcile posix_env ''/proj/build'' [''foo.py.tz.json''] (None, None) world2)
     = Inr (None, None) \<and>
   fst (reconcile posix_env ''/proj/build'' (entries ''/proj/build'' (fs world2))
          (None, None) world2) = Inl SyntaxError \<and>
   map_of (fs (snd (reconcile posix_env ''/proj/build'' (entries ''/proj/build'' (fs world2))
                      (None, None) world2)))
     ''/proj/build/foo.py.tz.json'' = None \<and>
   drop (length (trace world2))
     (trace (snd (reconcile posix_env ''/proj/build'' (entries ''/proj/build'' (fs world2))
                    (None, None) world2)))
     = [Unlink ''/proj/build/foo.py.tz.json'', ReadFile ''/proj/build/zz.tz.json'']"
proof -
  let ?r = "reconcile posix_env ''/proj/build'' (entries ''/proj/build'' (fs world2))
              (None, None) world2"
  let ?q = "reconcile posix_env ''/proj/build'' [''foo.py.tz.json''] (None, None) world2"
  have l: "entries ''/proj/build'' (fs world2) = [''foo.py.tz.json'', ''notes.txt'', ''zz.tz.json'']"
    by code_simp
  have v: "fst ?q = Inr (None, None)"
    by code_simp
  have "[] @ [''foo'' @ ''.py'' @ ''.tz.json''] = [''foo.py.tz.json'']"
    by simp
  moreover from v have "?q = (Inr (None, None), snd ?q)"
    by (cases ?q) simp
  ultimately have reach:
    "reconcile posix_env ''/proj/build'' ([] @ [''foo'' @ ''.py'' @ ''.tz.json'']) (None, None) world2
       = (Inr (None, None), snd ?q)"
    by (simp only:)
  have "[] @ (''foo'' @ ''.py'' @ ''.tz.json'') # [''notes.txt'', ''zz.tz.json'']
          = entries ''/proj/build'' (fs world2)"
    by (simp add: l)
  then have pass:
    "reconcile posix_env ''/proj/build''
       ([] @ (''foo'' @ ''.py'' @ ''.tz.json'') # [''notes.txt'', ''zz.tz.json'']) (None, None) world2
       = (fst ?r, snd ?r)"
    by (simp only: prod.collapse)
  have e: "fst ?r = Inl SyntaxError"
    by code_simp
  have t: "drop (length (trace world2)) (trace (snd ?r)) =
             [Unlink ''/proj/build/foo.py.tz.json'', ReadFile ''/proj/build/zz.tz.json'']"
    by code_simp
  from source_echo_by_substring [OF reach pass]
  have "map_of (fs (snd ?r)) (''/proj/build'' @ ''/'' @ ''foo'' @ ''.py'' @ ''.tz.json'') = None"
    by (rule conjunct1)
  then have a: "map_of (fs (snd ?r)) ''/proj/build/foo.py.tz.json'' = None"
    by simp
  from l v e a t show ?thesis
    by blast
qed

subsection \<open>The build directory at the launch\<close>

text \<open>
  C8 does not hold of the code. \<open>execSmartPy\<close> calls the promisified \<open>mkdirp\<close> and
  does not wait for the promise: the next statement starts the process. With the build
  directory \<open>/proj/out/contracts\<close> and neither it nor \<open>/proj/out\<close> present, the
  trace of the launch is the request followed by the process, and in the world the process
  is launched in the directory does not exist; it exists once the event loop has performed
  the request.
\<close>

theorem launch_precedes_directory:
  "\<not> existsSync ''/proj/out/contracts'' world0 \<and>
   \<not> existsSync ''/proj/out'' world0 \<and>
   trace (launch posix_env ''/proj/contracts/x.py'' None
            ((request [])\<lparr>contracts_build_directory := ''/proj/out/contracts''\<rparr>) world0) =
     [Mkdirp ''/proj/out/contracts'',
      Spawn ''docker''
        [''run'', ''-v'', ''/proj:/proj'', ''-w'', ''/proj'', ''--rm'', ''-i'',
         ''trufflesuite/smartpy-basic:0.0.1'', ''compile'', ''/proj/contracts/x.py'', ''x()'',
         ''/proj/out/contracts'']] \<and>
   \<not> existsSync ''/proj/out/contracts''
       (launch posix_env ''/proj/contracts/x.py'' None
          ((request [])\<lparr>contracts_build_directory := ''/proj/out/contracts''\<rparr>) world0) \<and>
   existsSync ''/proj/out/contracts''
     (run_pending
        (launch posix_env ''/proj/contracts/x.py'' None
           ((request [])\<lparr>contracts_build_directory := ''/proj/out/contracts''\<rparr>) world0))"
  by code_simp

end
